theory Spec2Isabelle
  imports Complex_Main "HOL-Library.Log_Nat"
begin

section \<open>Python values, errors and double-precision floats\<close>

text \<open>
  The exceptions that the modelled code can raise.  \<open>WaveError\<close> is \<open>wave.Error\<close>, which
  is not a subclass of \<open>ValueError\<close>.
\<close>

datatype error = ValueError | OverflowError | TypeError | ZeroDivisionError | WaveError

definition ebind :: "error + 'a \<Rightarrow> ('a \<Rightarrow> error + 'b) \<Rightarrow> error + 'b" where
  "ebind m f = (case m of Inl e \<Rightarrow> Inl e | Inr x \<Rightarrow> f x)"

text \<open>
  A Python \<open>float\<close> is an IEEE-754 binary64 value.  A finite one is kept as the rational
  number it denotes; the sign of a zero is dropped, since no modelled operation
  (\<open>int()\<close>, comparison, formatting of a value computed from a non-negative integer)
  observes it.
\<close>

datatype pyfloat = Fin rat | PInf | NInf | NaN

definition pow2 :: "int \<Rightarrow> rat" where
  "pow2 e = (if 0 \<le> e then 2 ^ nat e else 1 / 2 ^ nat (- e))"

definition pow10 :: "int \<Rightarrow> rat" where
  "pow10 e = (if 0 \<le> e then 10 ^ nat e else 1 / 10 ^ nat (- e))"

text \<open>The binary exponent \<open>\<lfloor>log\<^sub>2 \<bar>x\<bar>\<rfloor>\<close> of a non-zero rational.\<close>

definition ilog2 :: "rat \<Rightarrow> int" where
  "ilog2 x = (let (p, q) = quotient_of \<bar>x\<bar>; e = bitlen p - bitlen q
              in if pow2 e \<le> \<bar>x\<bar> then e else e - 1)"

text \<open>Rounding to the nearest integer, ties to the even one.\<close>

definition rne :: "rat \<Rightarrow> int" where
  "rne x = (let f = \<lfloor>x\<rfloor>; d = x - of_int f
            in if d < 1 / 2 then f else if 1 / 2 < d then f + 1
               else if even f then f else f + 1)"

text \<open>
  Rounding of an exact result to binary64: 53 significant bits, the spacing of the
  subnormal range below \<open>2\<^sup>-\<^sup>1\<^sup>0\<^sup>2\<^sup>2\<close>, round-half-even.  Overflow is decided by the caller.
\<close>

definition fl_round :: "rat \<Rightarrow> rat" where
  "fl_round x = (if x = 0 then 0
                 else let q = pow2 (max (ilog2 x) (- 1022) - 52)
                      in of_int (rne (x / q)) * q)"

text \<open>The exponent of the binade whose spacing \<open>fl_round\<close> uses.\<close>

definition fexp :: "rat \<Rightarrow> int" where
  "fexp x = max (ilog2 x) (- 1022)"

definition to_float :: "rat \<Rightarrow> pyfloat" where
  "to_float x = (let r = fl_round x
                 in if pow2 1024 \<le> r then PInf
                    else if r \<le> - pow2 1024 then NInf else Fin r)"

fun fmul :: "pyfloat \<Rightarrow> pyfloat \<Rightarrow> pyfloat" where
  "fmul (Fin a) (Fin b) = to_float (a * b)"
| "fmul NaN _ = NaN"
| "fmul _ NaN = NaN"
| "fmul PInf (Fin b) = (if b = 0 then NaN else if 0 < b then PInf else NInf)"
| "fmul NInf (Fin b) = (if b = 0 then NaN else if 0 < b then NInf else PInf)"
| "fmul (Fin a) PInf = (if a = 0 then NaN else if 0 < a then PInf else NInf)"
| "fmul (Fin a) NInf = (if a = 0 then NaN else if 0 < a then NInf else PInf)"
| "fmul PInf PInf = PInf"
| "fmul PInf NInf = NInf"
| "fmul NInf PInf = NInf"
| "fmul NInf NInf = PInf"

fun fadd :: "pyfloat \<Rightarrow> pyfloat \<Rightarrow> pyfloat" where
  "fadd (Fin a) (Fin b) = to_float (a + b)"
| "fadd NaN _ = NaN"
| "fadd _ NaN = NaN"
| "fadd PInf NInf = NaN"
| "fadd NInf PInf = NaN"
| "fadd PInf _ = PInf"
| "fadd NInf _ = NInf"
| "fadd _ PInf = PInf"
| "fadd _ NInf = NInf"

text \<open>\<open>int(x)\<close> of a float: truncation toward zero; infinities and NaN raise.\<close>

definition float_trunc :: "rat \<Rightarrow> int" where
  "float_trunc r = (if 0 \<le> r then \<lfloor>r\<rfloor> else \<lceil>r\<rceil>)"

fun float_to_int :: "pyfloat \<Rightarrow> error + int" where
  "float_to_int (Fin r) = Inr (float_trunc r)"
| "float_to_int PInf = Inl OverflowError"
| "float_to_int NInf = Inl OverflowError"
| "float_to_int NaN = Inl ValueError"

text \<open>
  Conversion of an \<open>int\<close> operand of a float operation, and true division \<open>a / b\<close> of two
  \<open>int\<close>s; both are correctly rounded and raise \<open>OverflowError\<close> beyond the double range.
\<close>

definition int_to_float :: "int \<Rightarrow> error + pyfloat" where
  "int_to_float n = (case to_float (of_int n) of Fin r \<Rightarrow> Inr (Fin r) | _ \<Rightarrow> Inl OverflowError)"

definition int_truediv :: "int \<Rightarrow> int \<Rightarrow> error + pyfloat" where
  "int_truediv a b =
     (if b = 0 then Inl ZeroDivisionError
      else case to_float (of_int a / of_int b) of Fin r \<Rightarrow> Inr (Fin r) | _ \<Rightarrow> Inl OverflowError)"

section \<open>Strings\<close>

definition endswith :: "string \<Rightarrow> string \<Rightarrow> bool" where
  "endswith s suf = (length suf \<le> length s \<and> drop (length s - length suf) s = suf)"

text \<open>The slice \<open>s[:-k]\<close> for a positive literal \<open>k\<close>.\<close>

definition drop_last :: "nat \<Rightarrow> string \<Rightarrow> string" where
  "drop_last k s = take (length s - k) s"

fun split_char :: "char \<Rightarrow> string \<Rightarrow> string list" where
  "split_char c [] = [[]]"
| "split_char c (x # xs) =
     (if x = c then [] # split_char c xs
      else (case split_char c xs of p # ps \<Rightarrow> (x # p) # ps | [] \<Rightarrow> [[x]]))"

definition is_digit :: "char \<Rightarrow> bool" where
  "is_digit c = (let n = (of_char c :: nat) in 48 \<le> n \<and> n \<le> 57)"

definition digit_val :: "char \<Rightarrow> nat" where
  "digit_val c = of_char c - 48"

text \<open>ASCII white space as \<open>str.strip\<close> and the number parsers see it.\<close>

definition is_space :: "char \<Rightarrow> bool" where
  "is_space c = (let n = (of_char c :: nat) in (9 \<le> n \<and> n \<le> 13) \<or> (28 \<le> n \<and> n \<le> 32))"

definition strip :: "string \<Rightarrow> string" where
  "strip s = rev (dropWhile is_space (rev (dropWhile is_space s)))"

definition lower :: "char \<Rightarrow> char" where
  "lower c = (let n = (of_char c :: nat) in if 65 \<le> n \<and> n \<le> 90 then char_of (n + 32) else c)"

fun digits_val :: "nat \<Rightarrow> string \<Rightarrow> nat" where
  "digits_val acc [] = acc"
| "digits_val acc (c # cs) = digits_val (10 * acc + digit_val c) cs"

text \<open>
  Underscores in a numeric string: allowed only between two digits.  The scan keeps the
  previous character, as the interpreter's loop does, and returns the string without
  the underscores.
\<close>

fun strip_underscores :: "char \<Rightarrow> string \<Rightarrow> string option" where
  "strip_underscores prev [] = (if prev = CHR ''_'' then None else Some [])"
| "strip_underscores prev (c # cs) =
     (if c = CHR ''_'' then (if is_digit prev then strip_underscores c cs else None)
      else if prev = CHR ''_'' \<and> \<not> is_digit c then None
      else map_option ((#) c) (strip_underscores c cs))"

definition split_sign :: "string \<Rightarrow> bool \<times> string" where
  "split_sign s = (case s of [] \<Rightarrow> (False, [])
                   | c # t \<Rightarrow> if c = CHR ''-'' then (True, t)
                              else if c = CHR ''+'' then (False, t) else (False, s))"

text \<open>
  An unsigned decimal literal: digits, an optional point and digits (at least one digit
  in all), an optional exponent.  The value is exact; \<open>None\<close> when the string is not
  wholly such a literal.
\<close>

definition parse_decimal :: "string \<Rightarrow> rat option" where
  "parse_decimal s =
     (let ip = takeWhile is_digit s; r1 = dropWhile is_digit s;
          (fp, r2) = (case r1 of [] \<Rightarrow> ([], [])
                      | c # t \<Rightarrow> if c = CHR ''.'' then (takeWhile is_digit t, dropWhile is_digit t)
                                 else ([], r1))
      in if ip = [] \<and> fp = [] then None
         else let m = of_nat (digits_val 0 (ip @ fp)) / 10 ^ length fp
              in (case r2 of [] \<Rightarrow> Some m
                  | c # t \<Rightarrow>
                      if c = CHR ''e'' \<or> c = CHR ''E'' then
                        (let (neg, d) = split_sign t
                         in if d \<noteq> [] \<and> list_all is_digit d
                            then Some (m * pow10 (if neg then - int (digits_val 0 d)
                                                  else int (digits_val 0 d)))
                            else None)
                      else None))"

text \<open>
  \<open>float(s)\<close> for an ASCII string: surrounding white space is ignored, the literal is
  converted with correct rounding, \<open>inf\<close>, \<open>infinity\<close> and \<open>nan\<close> are accepted in any case,
  anything else raises \<open>ValueError\<close>.
\<close>

definition py_float :: "string \<Rightarrow> error + pyfloat" where
  "py_float s0 =
     (case strip_underscores (CHR 0x00) (strip s0) of
        None \<Rightarrow> Inl ValueError
      | Some s \<Rightarrow>
          (let (neg, body) = split_sign s
           in case parse_decimal body of
                Some m \<Rightarrow> Inr (to_float (if neg then - m else m))
              | None \<Rightarrow>
                  (let l = map lower body
                   in if l = ''inf'' \<or> l = ''infinity'' then Inr (if neg then NInf else PInf)
                      else if l = ''nan'' then Inr NaN
                      else Inl ValueError)))"

text \<open>\<open>int(s)\<close> for an ASCII string in base 10.\<close>

definition py_int :: "string \<Rightarrow> error + int" where
  "py_int s0 =
     (let (neg, body) = split_sign (strip s0)
      in case strip_underscores (CHR 0x00) body of
           None \<Rightarrow> Inl ValueError
         | Some d \<Rightarrow> if d \<noteq> [] \<and> list_all is_digit d
                     then Inr (if neg then - int (digits_val 0 d) else int (digits_val 0 d))
                     else Inl ValueError)"

section \<open>The time parser\<close>

text \<open>
  \<open>parse_time\<close> of the source, branch for branch.  The result is \<open>Some\<close> integer, or
  \<open>None\<close> where the Python function falls off its end and returns \<open>None\<close>.
\<close>

definition parse_time :: "string \<Rightarrow> error + int option" where
  "parse_time time_str =
     (if endswith time_str ''s'' then
        ebind (py_float (drop_last 1 time_str)) (\<lambda>x.
        ebind (float_to_int (fmul x (Fin 1000))) (\<lambda>n. Inr (Some n)))
      else if endswith time_str ''ms'' then
        ebind (py_int (drop_last 2 time_str)) (\<lambda>n. Inr (Some n))
      else if endswith time_str ''m'' then
        ebind (py_float (drop_last 1 time_str)) (\<lambda>x.
        ebind (float_to_int (fmul (fmul x (Fin 60)) (Fin 1000))) (\<lambda>n. Inr (Some n)))
      else if CHR '':'' \<in> set time_str then
        (case split_char (CHR '':'') time_str of
           [minutes, seconds] \<Rightarrow>
             ebind (py_float minutes) (\<lambda>m.
             ebind (py_float seconds) (\<lambda>s.
             ebind (float_to_int (fadd (fmul (fmul m (Fin 60)) (Fin 1000)) (fmul s (Fin 1000))))
               (\<lambda>n. Inr (Some n))))
         | [hours, minutes, seconds] \<Rightarrow>
             ebind (py_float hours) (\<lambda>h.
             ebind (py_float minutes) (\<lambda>m.
             ebind (py_float seconds) (\<lambda>s.
             ebind (float_to_int
                      (fadd (fadd (fmul (fmul h (Fin 3600)) (Fin 1000))
                                  (fmul (fmul m (Fin 60)) (Fin 1000)))
                            (fmul s (Fin 1000))))
               (\<lambda>n. Inr (Some n)))))
         | _ \<Rightarrow> Inr None)
      else
        ebind (py_float time_str) (\<lambda>x.
        ebind (float_to_int (fmul x (Fin 1000))) (\<lambda>n. Inr (Some n))))"


section \<open>The duration formatter\<close>

text \<open>
  C's \<open>fmod\<close> (exact, sign of the dividend) and Python's \<open>%\<close> and \<open>//\<close> on finite floats
  with a non-zero divisor, as the interpreter computes them from \<open>fmod\<close>.
\<close>

definition c_fmod :: "rat \<Rightarrow> rat \<Rightarrow> rat" where
  "c_fmod x y = x - y * of_int (float_trunc (x / y))"

definition float_rem :: "rat \<Rightarrow> rat \<Rightarrow> rat" where
  "float_rem vx wx =
     (let m = c_fmod vx wx
      in if m \<noteq> 0 then (if (wx < 0) \<noteq> (m < 0) then fl_round (m + wx) else m) else 0)"

definition float_floor_div :: "rat \<Rightarrow> rat \<Rightarrow> rat" where
  "float_floor_div vx wx =
     (let m = c_fmod vx wx;
          d0 = fl_round (fl_round (vx - m) / wx);
          d = (if m \<noteq> 0 \<and> ((wx < 0) \<noteq> (m < 0)) then fl_round (d0 - 1) else d0)
      in if d \<noteq> 0
         then (let f = of_int \<lfloor>d\<rfloor> in if 1 / 2 < fl_round (d - f) then fl_round (f + 1) else f)
         else 0)"

definition digit_char :: "nat \<Rightarrow> char" where
  "digit_char d = char_of (48 + d)"

function show_nat :: "nat \<Rightarrow> string" where
  "show_nat n = (if n < 10 then [digit_char n]
                 else show_nat (n div 10) @ [digit_char (n mod 10)])"
  by pat_completeness auto
termination
  by (relation "measure id") auto

declare show_nat.simps [simp del]

definition zfill :: "nat \<Rightarrow> string \<Rightarrow> string" where
  "zfill w s = replicate (w - length s) (CHR ''0'') @ s"

text \<open>The format specifications \<open>02d\<close> (of an \<open>int\<close>) and \<open>06.3f\<close> (of a finite float).\<close>

definition fmt_02d :: "int \<Rightarrow> string" where
  "fmt_02d n = (if n < 0 then ''-'' @ zfill 1 (show_nat (nat (- n)))
                else zfill 2 (show_nat (nat n)))"

definition fmt_06_3f :: "rat \<Rightarrow> string" where
  "fmt_06_3f x =
     (let n = nat (rne (\<bar>x\<bar> * 1000));
          body = show_nat (n div 1000) @ ''.'' @ zfill 3 (show_nat (n mod 1000))
      in if x < 0 then ''-'' @ zfill 5 body else zfill 6 body)"

definition format_duration :: "int \<Rightarrow> error + string" where
  "format_duration duration_ms =
     ebind (int_truediv duration_ms 1000) (\<lambda>ts.
       case ts of
         Fin total_seconds \<Rightarrow>
           (let hours = float_trunc (float_floor_div total_seconds 3600);
                minutes = float_trunc (float_floor_div (float_rem total_seconds 3600) 60);
                seconds = float_rem total_seconds 60
            in Inr (if 0 < hours
                    then fmt_02d hours @ '':'' @ fmt_02d minutes @ '':'' @ fmt_06_3f seconds
                    else fmt_02d minutes @ '':'' @ fmt_06_3f seconds))
       | _ \<Rightarrow> Inl OverflowError)"

text \<open>
  What the formatter prints for a duration, written with integer arithmetic: the hours
  (only when positive), the minutes and the seconds with three decimals.
\<close>

definition hms_string :: "int \<Rightarrow> string" where
  "hms_string v =
     (let H = v div 3600000; M = v div 60000 mod 60; S = v mod 60000;
          sec = zfill 6 (show_nat (nat (S div 1000)) @ ''.''
                           @ zfill 3 (show_nat (nat (S mod 1000))))
      in if 0 < H then fmt_02d H @ '':'' @ fmt_02d M @ '':'' @ sec
         else fmt_02d M @ '':'' @ sec)"

section \<open>The raw-PCM reader\<close>

type_synonym bytes = "char list"

text \<open>
  The state of a \<open>wave.Wave_read\<close> object: the header fields, the bytes of the data chunk
  and the current frame position.  \<open>wave_opened\<close> is what \<open>wave.open\<close> guarantees of a
  freshly opened file: the header fields are 16- and 32-bit values, the channel count and
  sample width are positive, the chunk size is a 32-bit value and the frame count is the
  chunk size divided by the frame size.
\<close>

record wave_read =
  framerate :: int
  nchannels :: int
  sampwidth :: int
  nframes :: int
  frames :: bytes
  soundpos :: int

definition framesize :: "wave_read \<Rightarrow> int" where
  "framesize w = nchannels w * sampwidth w"

definition wave_opened :: "wave_read \<Rightarrow> bool" where
  "wave_opened w \<longleftrightarrow>
     1 \<le> nchannels w \<and> nchannels w < 2 ^ 16 \<and>
     0 \<le> framerate w \<and> framerate w < 2 ^ 32 \<and>
     1 \<le> sampwidth w \<and> sampwidth w \<le> 8192 \<and>
     int (length (frames w)) < 2 ^ 32 \<and>
     nframes w = int (length (frames w)) div framesize w \<and>
     soundpos w = 0"

definition setpos :: "wave_read \<Rightarrow> int \<Rightarrow> error + wave_read" where
  "setpos w pos = (if pos < 0 \<or> nframes w < pos then Inl WaveError
                   else Inr (w\<lparr>soundpos := pos\<rparr>))"

text \<open>
  \<open>readframes(n)\<close>: nothing for \<open>n = 0\<close>; otherwise \<open>n\<close> frames from the current position,
  or all the remaining bytes when \<open>n\<close> is negative or reaches beyond the chunk.
\<close>

definition readframes :: "wave_read \<Rightarrow> int \<Rightarrow> bytes \<times> wave_read" where
  "readframes w n =
     (if n = 0 then ([], w)
      else let start = soundpos w * framesize w;
               remaining = int (length (frames w)) - start;
               size = n * framesize w;
               size' = (if size < 0 \<or> remaining < size then remaining else size);
               d = take (nat size') (drop (nat start) (frames w))
           in (d, w\<lparr>soundpos := soundpos w + int (length d) div framesize w\<rparr>))"

section \<open>The segment editor\<close>

text \<open>
  The attributes of an \<open>AudioCutter\<close> on the \<open>wave\<close> backend, and its constructor.  Any
  exception while reading the header values or computing the duration is re-raised as
  \<open>ValueError\<close>.
\<close>

record cutter =
  wave_file :: wave_read
  sample_rate :: int
  channels :: int
  sample_width :: int
  total_frames :: int
  duration_ms :: int

definition as_value_error :: "error + 'a \<Rightarrow> error + 'a" where
  "as_value_error m = (case m of Inl e \<Rightarrow> Inl ValueError | Inr x \<Rightarrow> Inr x)"

definition init_wave :: "wave_read \<Rightarrow> error + cutter" where
  "init_wave w =
     as_value_error
       (ebind (int_truediv (nframes w) (framerate w)) (\<lambda>q.
        ebind (float_to_int (fmul q (Fin 1000))) (\<lambda>d.
          Inr \<lparr>wave_file = w, sample_rate = framerate w, channels = nchannels w,
               sample_width = sampwidth w, total_frames = nframes w, duration_ms = d\<rparr>)))"

text \<open>The conversion \<open>int((ms / 1000) * sample_rate)\<close> that every raw-PCM helper uses.\<close>

definition ms_to_frame :: "int \<Rightarrow> int \<Rightarrow> error + int" where
  "ms_to_frame ms rate =
     ebind (int_truediv ms 1000) (\<lambda>x.
     ebind (int_to_float rate) (\<lambda>r. float_to_int (fmul x r)))"

text \<open>
  The value of \<open>ms_to_frame\<close> where no operation overflows, and the conversion as the
  specification words it, \<open>floor(ms / 1000 \<times> sampleRate)\<close> in exact arithmetic.
\<close>

definition frame_of :: "int \<Rightarrow> int \<Rightarrow> int" where
  "frame_of ms rate = float_trunc (fl_round (fl_round (of_int ms / 1000) * of_int rate))"

definition spec_frame :: "int \<Rightarrow> int \<Rightarrow> int" where
  "spec_frame ms rate = \<lfloor>(of_int ms :: rat) / 1000 * of_int rate\<rfloor>"

text \<open>The bytes of the frames \<open>a\<close> (included) to \<open>b\<close> (excluded) of the data chunk.\<close>

definition frame_range :: "wave_read \<Rightarrow> int \<Rightarrow> int \<Rightarrow> bytes" where
  "frame_range w a b =
     take (nat ((b - a) * framesize w)) (drop (nat (a * framesize w)) (frames w))"

text \<open>The duration that \<open>init_wave\<close> stores, where the frame rate is not zero.\<close>

definition wave_duration :: "int \<Rightarrow> int \<Rightarrow> int" where
  "wave_duration n rate =
     float_trunc (fl_round (fl_round (of_int n / of_int rate) * 1000))"

text \<open>
  What every reader state keeps while the position moves: a positive frame size and a
  data chunk that holds all \<open>nframes\<close> frames.
\<close>

definition wave_inv :: "wave_read \<Rightarrow> bool" where
  "wave_inv w \<longleftrightarrow> 1 \<le> framesize w \<and> 0 \<le> nframes w \<and>
     nframes w * framesize w \<le> int (length (frames w))"

text \<open>A cutter on the \<open>wave\<close> backend as the constructor leaves it for an opened file.\<close>

definition loaded_wave :: "wave_read \<Rightarrow> cutter \<Rightarrow> bool" where
  "loaded_wave w c \<longleftrightarrow> wave_opened w \<and> init_wave w = Inr c"

definition wav_cut_from_front :: "cutter \<Rightarrow> int \<Rightarrow> error + bytes \<times> cutter" where
  "wav_cut_from_front c ms =
     ebind (ms_to_frame ms (sample_rate c)) (\<lambda>start_frame.
     ebind (setpos (wave_file c) start_frame) (\<lambda>w.
       let remaining_frames = total_frames c - start_frame;
           (d, w') = readframes w remaining_frames
       in Inr (d, c\<lparr>wave_file := w'\<rparr>)))"

definition wav_cut_from_back :: "cutter \<Rightarrow> int \<Rightarrow> error + bytes \<times> cutter" where
  "wav_cut_from_back c ms =
     ebind (ms_to_frame ms (sample_rate c)) (\<lambda>cut_frames.
       let keep_frames = total_frames c - cut_frames
       in ebind (setpos (wave_file c) 0) (\<lambda>w.
            let (d, w') = readframes w keep_frames
            in Inr (d, c\<lparr>wave_file := w'\<rparr>)))"

definition wav_cut_from_middle :: "cutter \<Rightarrow> int \<Rightarrow> int \<Rightarrow> error + bytes \<times> cutter" where
  "wav_cut_from_middle c start_ms end_ms =
     ebind (ms_to_frame start_ms (sample_rate c)) (\<lambda>start_frame.
     ebind (ms_to_frame end_ms (sample_rate c)) (\<lambda>end_frame.
     ebind (setpos (wave_file c) 0) (\<lambda>w0.
       let (before_data, w1) = readframes w0 start_frame
       in ebind (setpos w1 end_frame) (\<lambda>w2.
            let (after_data, w3) = readframes w2 (total_frames c - end_frame)
            in Inr (before_data @ after_data, c\<lparr>wave_file := w3\<rparr>)))))"

definition wav_extract_segment :: "cutter \<Rightarrow> int \<Rightarrow> int \<Rightarrow> error + bytes \<times> cutter" where
  "wav_extract_segment c start_ms end_ms =
     ebind (ms_to_frame start_ms (sample_rate c)) (\<lambda>start_frame.
     ebind (ms_to_frame end_ms (sample_rate c)) (\<lambda>end_frame.
     ebind (setpos (wave_file c) start_frame) (\<lambda>w.
       let (d, w') = readframes w (end_frame - start_frame)
       in Inr (d, c\<lparr>wave_file := w'\<rparr>))))"

text \<open>
  The decode/encode library of the other backend is not part of the program.  Its
  operations on an audio segment are parameters: the length in milliseconds, the slice
  \<open>seg[a:b]\<close> with optional bounds, concatenation, and whether an export succeeds.
\<close>

record 'seg pydub =
  seg_len :: "'seg \<Rightarrow> int"
  seg_slice :: "'seg \<Rightarrow> int option \<Rightarrow> int option \<Rightarrow> 'seg"
  seg_add :: "'seg \<Rightarrow> 'seg \<Rightarrow> 'seg"
  seg_export :: "'seg \<Rightarrow> string \<Rightarrow> string \<Rightarrow> bool"

datatype 'seg audio_cutter = PydubCutter 'seg | WaveCutter cutter

datatype 'seg audio_data = Segment 'seg | Frames bytes

fun get_duration :: "'seg pydub \<Rightarrow> 'seg audio_cutter \<Rightarrow> int" where
  "get_duration P (PydubCutter a) = seg_len P a"
| "get_duration P (WaveCutter c) = duration_ms c"

definition lift_wave ::
  "error + bytes \<times> cutter \<Rightarrow> error + 'seg audio_data \<times> 'seg audio_cutter" where
  "lift_wave m = ebind m (\<lambda>(d, c). Inr (Frames d, WaveCutter c))"

definition cut_from_front ::
  "'seg pydub \<Rightarrow> 'seg audio_cutter \<Rightarrow> int \<Rightarrow> error + 'seg audio_data \<times> 'seg audio_cutter" where
  "cut_from_front P self ms =
     (if ms \<le> 0 then Inl ValueError
      else if get_duration P self \<le> ms then Inl ValueError
      else case self of
             PydubCutter a \<Rightarrow> Inr (Segment (seg_slice P a (Some ms) None), self)
           | WaveCutter c \<Rightarrow> lift_wave (wav_cut_from_front c ms))"

definition cut_from_back ::
  "'seg pydub \<Rightarrow> 'seg audio_cutter \<Rightarrow> int \<Rightarrow> error + 'seg audio_data \<times> 'seg audio_cutter" where
  "cut_from_back P self ms =
     (if ms \<le> 0 then Inl ValueError
      else if get_duration P self \<le> ms then Inl ValueError
      else case self of
             PydubCutter a \<Rightarrow> Inr (Segment (seg_slice P a None (Some (- ms))), self)
           | WaveCutter c \<Rightarrow> lift_wave (wav_cut_from_back c ms))"

definition cut_from_middle ::
  "'seg pydub \<Rightarrow> 'seg audio_cutter \<Rightarrow> int \<Rightarrow> int
     \<Rightarrow> error + 'seg audio_data \<times> 'seg audio_cutter" where
  "cut_from_middle P self start_ms end_ms =
     (if start_ms < 0 \<or> end_ms < 0 then Inl ValueError
      else if end_ms \<le> start_ms then Inl ValueError
      else if get_duration P self < end_ms then Inl ValueError
      else case self of
             PydubCutter a \<Rightarrow>
               (let before_cut = seg_slice P a None (Some start_ms);
                    after_cut = seg_slice P a (Some end_ms) None
                in Inr (Segment (seg_add P before_cut after_cut), self))
           | WaveCutter c \<Rightarrow> lift_wave (wav_cut_from_middle c start_ms end_ms))"

definition extract_segment ::
  "'seg pydub \<Rightarrow> 'seg audio_cutter \<Rightarrow> int \<Rightarrow> int
     \<Rightarrow> error + 'seg audio_data \<times> 'seg audio_cutter" where
  "extract_segment P self start_ms end_ms =
     (if start_ms < 0 \<or> end_ms < 0 then Inl ValueError
      else if end_ms \<le> start_ms then Inl ValueError
      else if get_duration P self < end_ms then Inl ValueError
      else case self of
             PydubCutter a \<Rightarrow> Inr (Segment (seg_slice P a (Some start_ms) (Some end_ms)), self)
           | WaveCutter c \<Rightarrow> lift_wave (wav_extract_segment c start_ms end_ms))"

text \<open>
  A small file for concrete checks: two channels of one byte at 2 Hz, four frames, hence
  2000 ms; and a stand-in for the decode/encode library on segments without content.
\<close>

definition example_wave :: wave_read where
  "example_wave = \<lparr>framerate = 2, nchannels = 2, sampwidth = 1, nframes = 4,
                     frames = ''abcdefgh'', soundpos = 0\<rparr>"

definition example_cutter :: cutter where
  "example_cutter = \<lparr>wave_file = example_wave, sample_rate = 2, channels = 2,
                       sample_width = 1, total_frames = 4, duration_ms = 2000\<rparr>"

definition example_pydub :: "unit pydub" where
  "example_pydub = \<lparr>seg_len = (\<lambda>_. 2000), seg_slice = (\<lambda>s _ _. s), seg_add = (\<lambda>s _. s),
                      seg_export = (\<lambda>_ _ _. True)\<rparr>"

section \<open>Saving\<close>

text \<open>
  A \<open>pathlib\<close> path as its anchor and components.  \<open>path_str\<close>, \<open>name\<close>, \<open>suffix\<close> and
  \<open>with_suffix\<close> are the library's.
\<close>

record path =
  anchor :: string
  parts :: "string list"

fun join_parts :: "string list \<Rightarrow> string" where
  "join_parts [] = []"
| "join_parts [x] = x"
| "join_parts (x # y # ys) = x @ ''/'' @ join_parts (y # ys)"

definition path_str :: "path \<Rightarrow> string" where
  "path_str p = (if parts p = [] then (if anchor p = [] then ''.'' else anchor p)
                 else anchor p @ join_parts (parts p))"

definition name :: "path \<Rightarrow> string" where
  "name p = (if parts p = [] then [] else last (parts p))"

text \<open>\<open>s.rfind('.')\<close>: the index of the last point, if there is one.\<close>

fun rfind_dot :: "string \<Rightarrow> nat option" where
  "rfind_dot [] = None"
| "rfind_dot (c # cs) =
     (case rfind_dot cs of Some i \<Rightarrow> Some (Suc i)
      | None \<Rightarrow> if c = CHR ''.'' then Some 0 else None)"

definition suffix :: "path \<Rightarrow> string" where
  "suffix p = (case rfind_dot (name p) of
                 Some i \<Rightarrow> if 0 < i \<and> i + 1 < length (name p) then drop i (name p) else []
               | None \<Rightarrow> [])"

definition with_suffix :: "path \<Rightarrow> string \<Rightarrow> error + path" where
  "with_suffix p suf =
     (if CHR ''/'' \<in> set suf then Inl ValueError
      else if (suf \<noteq> [] \<and> hd suf \<noteq> CHR ''.'') \<or> suf = ''.'' then Inl ValueError
      else if name p = [] then Inl ValueError
      else let old_suffix = suffix p;
               n = (if old_suffix = [] then name p @ suf
                    else drop_last (length old_suffix) (name p) @ suf)
           in Inr (p\<lparr>parts := butlast (parts p) @ [n]\<rparr>))"

text \<open>
  What a successful save leaves behind: a file exported by the decode/encode library in a
  named format, or a linear-PCM (WAV) container with its parameters and frame bytes.
\<close>

datatype 'seg written =
    Exported string string 'seg
  | Wav_container string int int int bytes

text \<open>
  \<open>save_audio\<close>.  \<open>can_create\<close> says whether the operating system lets the file at a path
  be created.  On the \<open>wave\<close> backend the writer refuses a channel count below 1, a sample
  width outside 1..4 and a frame rate below 1; every failure inside the \<open>try\<close> block is
  re-raised as \<open>ValueError\<close>.
\<close>

definition save_audio ::
  "'seg pydub \<Rightarrow> (string \<Rightarrow> bool) \<Rightarrow> 'seg audio_cutter \<Rightarrow> 'seg audio_data \<Rightarrow> path
     \<Rightarrow> string option \<Rightarrow> error + path \<times> 'seg written" where
  "save_audio P can_create self audio_data output_path format =
     (case self of
        PydubCutter a \<Rightarrow>
          (let fmt = (case format of
                        Some f \<Rightarrow> f
                      | None \<Rightarrow> if suffix output_path \<noteq> []
                                then map lower (drop 1 (suffix output_path)) else ''mp3'')
           in case audio_data of
                Segment s \<Rightarrow>
                  if seg_export P s (path_str output_path) fmt
                  then Inr (output_path, Exported (path_str output_path) fmt s)
                  else Inl ValueError
              | Frames b \<Rightarrow> Inl ValueError)
      | WaveCutter c \<Rightarrow>
          ebind (if \<not> endswith (map lower (path_str output_path)) ''.wav''
                 then with_suffix output_path ''.wav'' else Inr output_path) (\<lambda>out.
            if \<not> can_create (path_str out) then Inl ValueError
            else if channels c < 1 then Inl ValueError
            else if sample_width c < 1 \<or> 4 < sample_width c then Inl ValueError
            else if sample_rate c \<le> 0 then Inl ValueError
            else case audio_data of
                   Frames b \<Rightarrow>
                     Inr (out, Wav_container (path_str out) (channels c) (sample_width c)
                                 (sample_rate c) b)
                 | Segment s \<Rightarrow> Inl ValueError))"

section \<open>Properties of the rounding\<close>


lemma pow2_powi: "pow2 e = 2 powi e"
  by (simp add: pow2_def power_int_def inverse_eq_divide power_divide)

lemma pow2_pos: "0 < pow2 e"
  by (simp add: pow2_powi zero_less_power_int)

lemma pow2_add: "pow2 (a + b) = pow2 a * pow2 b"
  by (simp add: pow2_powi power_int_add)

lemma pow2_mono: "a \<le> b \<Longrightarrow> pow2 a \<le> pow2 b"
  by (simp add: pow2_powi power_int_increasing)

lemma pow2_strict_mono: "a < b \<Longrightarrow> pow2 a < pow2 b"
  by (simp add: pow2_powi power_int_strict_increasing)

lemma pow2_nat: "pow2 (int n) = 2 ^ n"
  by (simp add: pow2_def)

lemma ilog2_bounds:
  assumes "x \<noteq> 0"
  shows "pow2 (ilog2 x) \<le> \<bar>x\<bar>" and "\<bar>x\<bar> < pow2 (ilog2 x + 1)"
proof -
  obtain p q where pq: "quotient_of \<bar>x\<bar> = (p, q)" by (cases "quotient_of \<bar>x\<bar>")
  have q: "0 < q" using pq by (rule quotient_of_denom_pos)
  have xa: "\<bar>x\<bar> = of_int p / of_int q" using pq by (rule quotient_of_div)
  have "0 < \<bar>x\<bar>" using assms by simp
  then have p: "0 < p" using q xa by (simp add: zero_less_divide_iff)
  define bp where "bp = bitlen p"
  define bq where "bq = bitlen q"
  have bp: "2 ^ nat (bp - 1) \<le> p" "p < 2 ^ nat bp"
    using bitlen_bounds[OF p] by (simp_all add: bp_def)
  have bq: "2 ^ nat (bq - 1) \<le> q" "q < 2 ^ nat bq"
    using bitlen_bounds[OF q] by (simp_all add: bq_def)
  have bp1: "1 \<le> bp" using p bp(2) by (cases "bp \<le> 0") auto
  have bq1: "1 \<le> bq" using q bq(2) by (cases "bq \<le> 0") auto
  have rp: "pow2 (bp - 1) \<le> of_int p" "of_int p < pow2 bp"
  proof -
    have "(of_int (2 ^ nat (bp - 1)) :: rat) \<le> of_int p" using bp(1) by (simp only: of_int_le_iff)
    then show "pow2 (bp - 1) \<le> of_int p" using bp1 by (simp add: pow2_def)
    have "(of_int p :: rat) < of_int (2 ^ nat bp)" using bp(2) by (simp only: of_int_less_iff)
    then show "of_int p < pow2 bp" using bp1 by (simp add: pow2_def)
  qed
  have rq: "pow2 (bq - 1) \<le> of_int q" "of_int q < pow2 bq"
  proof -
    have "(of_int (2 ^ nat (bq - 1)) :: rat) \<le> of_int q" using bq(1) by (simp only: of_int_le_iff)
    then show "pow2 (bq - 1) \<le> of_int q" using bq1 by (simp add: pow2_def)
    have "(of_int q :: rat) < of_int (2 ^ nat bq)" using bq(2) by (simp only: of_int_less_iff)
    then show "of_int q < pow2 bq" using bq1 by (simp add: pow2_def)
  qed
  have qpos: "(0::rat) < of_int q" using q by simp
  have up: "\<bar>x\<bar> < pow2 (bp - bq + 1)"
  proof -
    have "of_int p < pow2 (bp - bq + 1) * pow2 (bq - 1)"
      using rp(2) by (simp add: pow2_add[symmetric])
    also have "\<dots> \<le> pow2 (bp - bq + 1) * of_int q"
      using rq(1) pow2_pos[of "bp - bq + 1"] by (simp add: mult_left_mono)
    finally show ?thesis using qpos by (simp add: xa pos_divide_less_eq)
  qed
  have lo: "pow2 (bp - bq - 1) \<le> \<bar>x\<bar>"
  proof -
    have "pow2 (bp - bq - 1) * of_int q \<le> pow2 (bp - bq - 1) * pow2 bq"
      using rq(2) pow2_pos[of "bp - bq - 1"] by (simp add: mult_left_mono)
    also have "\<dots> = pow2 (bp - 1)" by (simp add: pow2_add[symmetric])
    also have "\<dots> \<le> of_int p" by (rule rp(1))
    finally show ?thesis using qpos by (simp add: xa pos_le_divide_eq)
  qed
  have il: "ilog2 x = (if pow2 (bp - bq) \<le> \<bar>x\<bar> then bp - bq else bp - bq - 1)"
    by (simp add: ilog2_def pq bp_def bq_def Let_def)
  show "pow2 (ilog2 x) \<le> \<bar>x\<bar>" using lo by (simp add: il)
  show "\<bar>x\<bar> < pow2 (ilog2 x + 1)" using up by (auto simp: il not_le)
qed

lemma ilog2_eqI:
  assumes "pow2 e \<le> \<bar>x\<bar>" and "\<bar>x\<bar> < pow2 (e + 1)"
  shows "ilog2 x = e"
proof -
  have x: "x \<noteq> 0" using assms(1) pow2_pos[of e] by auto
  note b = ilog2_bounds[OF x]
  have "pow2 e < pow2 (ilog2 x + 1)" using assms(1) b(2) by simp
  then have 1: "e < ilog2 x + 1" using pow2_mono[of "ilog2 x + 1" e] by (cases "e < ilog2 x + 1") auto
  have "pow2 (ilog2 x) < pow2 (e + 1)" using assms(2) b(1) by simp
  then have 2: "ilog2 x < e + 1" using pow2_mono[of "e + 1" "ilog2 x"] by (cases "ilog2 x < e + 1") auto
  show ?thesis using 1 2 by simp
qed


lemma rne_of_int: "rne (of_int n) = n"
  by (simp add: rne_def)

lemma rne_bounds: "\<bar>of_int (rne x) - x\<bar> \<le> 1 / 2"
proof -
  have "of_int \<lfloor>x\<rfloor> \<le> x" "x < of_int \<lfloor>x\<rfloor> + 1" by linarith+
  then show ?thesis by (auto simp: rne_def Let_def)
qed

lemma rne_mono: assumes "x \<le> y" shows "rne x \<le> rne y"
proof -
  have fg: "\<lfloor>x\<rfloor> \<le> \<lfloor>y\<rfloor>" using assms by (rule floor_mono)
  have rx: "rne x \<le> \<lfloor>x\<rfloor> + 1" by (simp add: rne_def Let_def)
  have ry: "\<lfloor>y\<rfloor> \<le> rne y" by (simp add: rne_def Let_def)
  show ?thesis
  proof (cases "\<lfloor>x\<rfloor> < \<lfloor>y\<rfloor>")
    case True
    then show ?thesis using rx ry by linarith
  next
    case False
    then have eq: "\<lfloor>x\<rfloor> = \<lfloor>y\<rfloor>" using fg by simp
    then show ?thesis using assms by (auto simp: rne_def Let_def)
  qed
qed

lemma rne_minus: "rne (- x) = - rne x"
proof (cases "x = of_int \<lfloor>x\<rfloor>")
  case True
  then obtain n where "x = of_int n" ..
  then show ?thesis by (simp add: rne_def flip: of_int_minus)
next
  case False
  then have lt: "of_int \<lfloor>x\<rfloor> < x" by (metis of_int_floor_le order_le_less)
  have "x < of_int \<lfloor>x\<rfloor> + 1" by linarith
  then have fl: "\<lfloor>- x\<rfloor> = - \<lfloor>x\<rfloor> - 1" using lt by (intro floor_unique) auto
  show ?thesis using lt by (auto simp: rne_def Let_def fl)
qed

lemma rne_eqI: assumes "\<bar>x - of_int n\<bar> < 1 / 2" shows "rne x = n"
proof -
  have b: "\<bar>of_int (rne x) - x\<bar> \<le> 1 / 2" by (rule rne_bounds)
  have "\<bar>(of_int (rne x) :: rat) - of_int n\<bar> < 1" using assms b by linarith
  then have "\<bar>rne x - n\<bar> < 1" by (metis of_int_1 of_int_abs of_int_diff of_int_less_iff)
  then show ?thesis by simp
qed


lemma fl_round_alt: "x \<noteq> 0 \<Longrightarrow> fl_round x = of_int (rne (x / pow2 (fexp x - 52))) * pow2 (fexp x - 52)"
  by (simp add: fl_round_def fexp_def Let_def)

lemma ilog2_minus: "ilog2 (- x) = ilog2 x"
  by (simp add: ilog2_def)

lemma fl_round_minus: "fl_round (- x) = - fl_round x"
  by (simp add: fl_round_def ilog2_minus rne_minus Let_def)

lemma fl_round_0: "fl_round 0 = 0" by (simp add: fl_round_def)

lemma ilog2_mono: assumes "0 < x" "x \<le> y" shows "ilog2 x \<le> ilog2 y"
proof -
  have "pow2 (ilog2 x) \<le> \<bar>x\<bar>" using assms by (intro ilog2_bounds) simp
  also have "\<dots> \<le> \<bar>y\<bar>" using assms by simp
  also have "\<dots> < pow2 (ilog2 y + 1)" using assms by (intro ilog2_bounds) simp
  finally have "pow2 (ilog2 x) < pow2 (ilog2 y + 1)" .
  then have "ilog2 x < ilog2 y + 1" using pow2_mono[of "ilog2 y + 1" "ilog2 x"]
    by (cases "ilog2 x < ilog2 y + 1") auto
  then show ?thesis by simp
qed

lemma fl_round_upper: assumes "0 < x" shows "fl_round x \<le> pow2 (fexp x + 1)"
proof -
  let ?q = "pow2 (fexp x - 52)"
  have q: "0 < ?q" by (rule pow2_pos)
  have "x < pow2 (ilog2 x + 1)" using ilog2_bounds(2)[of x] assms by simp
  also have "\<dots> \<le> pow2 (fexp x + 1)" by (intro pow2_mono) (simp add: fexp_def)
  also have "\<dots> = pow2 (53 + (fexp x - 52))" by (rule arg_cong[of _ _ pow2]) simp
  also have "\<dots> = pow2 53 * ?q" by (rule pow2_add)
  finally have "x / ?q \<le> pow2 53" using q by (simp add: pos_divide_le_eq)
  then have "rne (x / ?q) \<le> rne (of_int (2 ^ 53))" by (intro rne_mono) (simp add: pow2_def)
  then have "rne (x / ?q) \<le> 2 ^ 53" by (simp only: rne_of_int)
  then have "(of_int (rne (x / ?q)) :: rat) \<le> of_int (2 ^ 53)" by (simp only: of_int_le_iff)
  then have "of_int (rne (x / ?q)) * ?q \<le> pow2 53 * ?q" using q by (simp add: pow2_def)
  moreover have "pow2 53 * ?q = pow2 (fexp x + 1)"
    unfolding pow2_add[symmetric] by (rule arg_cong[of _ _ pow2]) simp
  ultimately show ?thesis using assms by (simp add: fl_round_alt)
qed

lemma fl_round_lower: assumes "0 < x" "- 1022 \<le> ilog2 x" shows "pow2 (fexp x) \<le> fl_round x"
proof -
  let ?q = "pow2 (fexp x - 52)"
  have q: "0 < ?q" by (rule pow2_pos)
  have fe: "fexp x = ilog2 x" using assms by (simp add: fexp_def)
  have e52: "pow2 52 * ?q = pow2 (fexp x)"
    unfolding pow2_add[symmetric] by (rule arg_cong[of _ _ pow2]) simp
  then have "pow2 52 * ?q = pow2 (ilog2 x)" by (simp add: fe)
  also have "\<dots> \<le> x" using ilog2_bounds(1)[of x] assms by simp
  finally have "pow2 52 \<le> x / ?q" using q by (simp add: pos_le_divide_eq)
  then have "rne (of_int (2 ^ 52)) \<le> rne (x / ?q)" by (intro rne_mono) (simp add: pow2_def)
  then have "2 ^ 52 \<le> rne (x / ?q)" by (simp only: rne_of_int)
  then have "(of_int (2 ^ 52) :: rat) \<le> of_int (rne (x / ?q))" by (simp only: of_int_le_iff)
  then have "pow2 52 * ?q \<le> of_int (rne (x / ?q)) * ?q" using q by (simp add: pow2_def)
  then show ?thesis using assms e52 by (simp add: fl_round_alt)
qed

lemma fl_round_nonneg: assumes "0 \<le> x" shows "0 \<le> fl_round x"
proof (cases "x = 0")
  case True then show ?thesis by (simp add: fl_round_0)
next
  case False
  let ?q = "pow2 (fexp x - 52)"
  have q: "0 < ?q" by (rule pow2_pos)
  have "rne (of_int 0) \<le> rne (x / ?q)" using assms q by (intro rne_mono) simp
  then have "0 \<le> rne (x / ?q)" by (simp only: rne_of_int)
  then show ?thesis using False q by (simp add: fl_round_alt)
qed

lemma fl_round_mono_pos: assumes "0 < x" "x \<le> y" shows "fl_round x \<le> fl_round y"
proof -
  have y: "0 < y" using assms by simp
  have le: "fexp x \<le> fexp y" using ilog2_mono[OF assms] by (simp add: fexp_def)
  show ?thesis
  proof (cases "fexp x = fexp y")
    case True
    have q: "0 < pow2 (fexp y - 52)" by (rule pow2_pos)
    have "rne (x / pow2 (fexp y - 52)) \<le> rne (y / pow2 (fexp y - 52))"
      using assms q by (intro rne_mono) (simp add: divide_right_mono)
    then show ?thesis using assms y q by (simp add: fl_round_alt True)
  next
    case False
    then have lt: "fexp x < fexp y" using le by simp
    then have n: "- 1022 \<le> ilog2 y" by (auto simp: fexp_def)
    have "fl_round x \<le> pow2 (fexp x + 1)" using assms(1) by (rule fl_round_upper)
    also have "\<dots> \<le> pow2 (fexp y)" using lt by (intro pow2_mono) simp
    also have "\<dots> \<le> fl_round y" using y n by (rule fl_round_lower)
    finally show ?thesis .
  qed
qed

lemma fl_round_mono: assumes "x \<le> y" shows "fl_round x \<le> fl_round y"
proof -
  consider "0 < x" | "x \<le> 0" "0 \<le> y" | "y < 0" by linarith
  then show ?thesis
  proof cases
    case 1 then show ?thesis using assms by (rule fl_round_mono_pos)
  next
    case 2
    have "fl_round x \<le> 0" using fl_round_nonneg[of "- x"] 2 by (simp add: fl_round_minus)
    moreover have "0 \<le> fl_round y" using 2 by (intro fl_round_nonneg)
    ultimately show ?thesis by simp
  next
    case 3
    have "fl_round (- y) \<le> fl_round (- x)" using 3 assms by (intro fl_round_mono_pos) simp_all
    then show ?thesis by (simp add: fl_round_minus)
  qed
qed


lemma ilog2_less: assumes "x \<noteq> 0" "\<bar>x\<bar> < pow2 k" shows "ilog2 x < k"
proof -
  have "pow2 (ilog2 x) < pow2 k" using ilog2_bounds(1)[OF assms(1)] assms(2) by simp
  then show ?thesis using pow2_mono[of k "ilog2 x"] by (cases "ilog2 x < k") auto
qed

lemma ilog2_ge: assumes "pow2 k \<le> \<bar>x\<bar>" shows "k \<le> ilog2 x"
proof -
  have x: "x \<noteq> 0" using assms pow2_pos[of k] by auto
  have "pow2 k < pow2 (ilog2 x + 1)" using ilog2_bounds(2)[OF x] assms by simp
  then have "k < ilog2 x + 1" using pow2_mono[of "ilog2 x + 1" k] by (cases "k < ilog2 x + 1") auto
  then show ?thesis by simp
qed

lemma pow2_diff: "pow2 (a - b) = pow2 a / pow2 b"
proof -
  have "pow2 (a - b) * pow2 b = pow2 a" unfolding pow2_add[symmetric] by simp
  then show ?thesis using pow2_pos[of b] by (simp add: nonzero_eq_divide_eq)
qed

lemma fl_round_repr:
  assumes x: "x = of_int m * pow2 k" and m: "\<bar>m\<bar> < 2 ^ 53" and k: "- 1074 \<le> k"
  shows "fl_round x = x"
proof (cases "x = 0")
  case True then show ?thesis by (simp add: fl_round_0)
next
  case False
  have "\<bar>x\<bar> = of_int \<bar>m\<bar> * pow2 k" using pow2_pos[of k] by (simp add: x abs_mult)
  also have "\<dots> < of_int (2 ^ 53) * pow2 k"
    using m pow2_pos[of k] by (intro mult_strict_right_mono) (simp_all only: of_int_less_iff)
  also have "\<dots> = pow2 (53 + k)" by (simp add: pow2_add) (simp add: pow2_def)
  finally have "ilog2 x < 53 + k" using False by (intro ilog2_less)
  then have fe: "fexp x - 52 \<le> k" using k by (simp add: fexp_def)
  define j where "j = nat (k - (fexp x - 52))"
  have kj: "k = int j + (fexp x - 52)" using fe by (simp add: j_def)
  let ?q = "pow2 (fexp x - 52)"
  have q: "0 < ?q" by (rule pow2_pos)
  have "pow2 k = 2 ^ j * ?q" by (subst kj, subst pow2_add) (simp add: pow2_nat)
  then have "x = of_int (m * 2 ^ j) * ?q" by (simp add: x)
  then have xq: "x / ?q = of_int (m * 2 ^ j)" using q by (simp add: nonzero_divide_eq_eq)
  have "fl_round x = of_int (rne (x / ?q)) * ?q" using False by (rule fl_round_alt)
  also have "\<dots> = of_int (m * 2 ^ j) * ?q" by (simp only: xq rne_of_int)
  also have "\<dots> = x" using xq q by (simp add: nonzero_divide_eq_eq)
  finally show ?thesis .
qed

lemma fl_round_of_int: assumes "\<bar>n\<bar> < 2 ^ 53" shows "fl_round (of_int n) = of_int n"
  by (rule fl_round_repr[where m = n and k = 0]) (use assms in \<open>simp_all add: pow2_def\<close>)

lemma fl_round_pow2: assumes "- 1022 \<le> k" shows "fl_round (pow2 k) = pow2 k"
  by (rule fl_round_repr[where m = 1 and k = k]) (use assms in simp_all)

lemma fl_round_error:
  assumes "pow2 (- 1022) \<le> \<bar>x\<bar>"
  shows "\<bar>fl_round x - x\<bar> \<le> \<bar>x\<bar> * pow2 (- 53)"
proof -
  have x: "x \<noteq> 0" using assms pow2_pos[of "- 1022"] by auto
  have fe: "fexp x = ilog2 x" using ilog2_ge[OF assms] by (simp add: fexp_def)
  let ?q = "pow2 (ilog2 x - 52)"
  have q: "0 < ?q" by (rule pow2_pos)
  have "fl_round x - x = (of_int (rne (x / ?q)) - x / ?q) * ?q"
    using x q by (simp add: fl_round_alt fe algebra_simps)
  then have "\<bar>fl_round x - x\<bar> = \<bar>of_int (rne (x / ?q)) - x / ?q\<bar> * ?q"
    using q by (simp add: abs_mult)
  also have "\<dots> \<le> 1 / 2 * ?q" using q rne_bounds[of "x / ?q"] by (intro mult_right_mono) simp_all
  also have "\<dots> = pow2 (- 1) * ?q" by (simp add: pow2_def)
  also have "\<dots> = pow2 (ilog2 x + (- 53))" unfolding pow2_add[symmetric] by (rule arg_cong[of _ _ pow2]) simp
  also have "\<dots> = pow2 (ilog2 x) * pow2 (- 53)" by (rule pow2_add)
  also have "\<dots> \<le> \<bar>x\<bar> * pow2 (- 53)"
    using ilog2_bounds(1)[OF x] pow2_pos[of "- 53"] by (intro mult_right_mono) simp_all
  finally show ?thesis .
qed

lemma fl_round_eqI:
  assumes "pow2 e \<le> \<bar>x\<bar>" "\<bar>x\<bar> < pow2 (e + 1)" "- 1022 \<le> e"
    and "\<bar>x / pow2 (e - 52) - of_int n\<bar> < 1 / 2"
  shows "fl_round x = of_int n * pow2 (e - 52)"
proof -
  have x: "x \<noteq> 0" using assms(1) pow2_pos[of e] by auto
  have "ilog2 x = e" using assms(1,2) by (rule ilog2_eqI)
  then have fe: "fexp x = e" using assms(3) by (simp add: fexp_def)
  show ?thesis using x by (simp add: fl_round_alt fe rne_eqI[OF assms(4)])
qed

lemma to_float_fin: assumes "\<bar>x\<bar> \<le> pow2 1023" shows "to_float x = Fin (fl_round x)"
proof -
  have "fl_round x \<le> fl_round (pow2 1023)" using assms by (intro fl_round_mono) simp
  then have 1: "fl_round x \<le> pow2 1023" by (simp add: fl_round_pow2)
  have "fl_round (- pow2 1023) \<le> fl_round x" using assms by (intro fl_round_mono) simp
  then have 2: "- pow2 1023 \<le> fl_round x" by (simp add: fl_round_minus fl_round_pow2)
  have "pow2 1023 < pow2 1024" by (intro pow2_strict_mono) simp
  then show ?thesis using 1 2 by (simp add: to_float_def Let_def)
qed

lemma to_float_of_int: assumes "\<bar>n\<bar> < 2 ^ 53" shows "to_float (of_int n) = Fin (of_int n)"
proof -
  have "\<bar>of_int n :: rat\<bar> = of_int \<bar>n\<bar>" by simp
  also have "\<dots> \<le> of_int (2 ^ 53)" using assms by (simp only: of_int_le_iff)
  also have "\<dots> = pow2 53" by (simp add: pow2_def)
  also have "\<dots> \<le> pow2 1023" by (intro pow2_mono) simp
  finally show ?thesis using assms by (simp add: to_float_fin fl_round_of_int)
qed

lemma to_float_numeral: "numeral n < (2 ^ 53 :: int) \<Longrightarrow> to_float (numeral n) = Fin (numeral n)"
  using to_float_of_int[of "numeral n"] by simp

lemma to_float_zero: "to_float 0 = Fin 0"
  using to_float_of_int[of 0] by simp

lemma to_float_one: "to_float 1 = Fin 1"
  using to_float_of_int[of 1] by simp

lemmas parse_eval = py_float_def strip_def is_space_def split_sign_def parse_decimal_def
  is_digit_def digit_val_def endswith_def drop_last_def ebind_def float_trunc_def
  to_float_numeral to_float_zero to_float_one


section \<open>Float operations that stay finite\<close>



lemma fl_round_le_rel:
  assumes "0 \<le> x" "x = 0 \<or> pow2 (- 1022) \<le> x"
  shows "fl_round x \<le> x * (1 + pow2 (- 53))"
proof (cases "x = 0")
  case True then show ?thesis by (simp add: fl_round_0)
next
  case False
  then have "pow2 (- 1022) \<le> \<bar>x\<bar>" using assms by simp
  then have "\<bar>fl_round x - x\<bar> \<le> \<bar>x\<bar> * pow2 (- 53)" by (rule fl_round_error)
  then show ?thesis using assms(1) by (simp add: algebra_simps abs_le_iff)
qed

lemma fl_round_ge_rel:
  assumes "0 \<le> x" "x = 0 \<or> pow2 (- 1022) \<le> x"
  shows "x * (1 - pow2 (- 53)) \<le> fl_round x"
proof (cases "x = 0")
  case True then show ?thesis by (simp add: fl_round_0)
next
  case False
  then have "pow2 (- 1022) \<le> \<bar>x\<bar>" using assms by simp
  then have "\<bar>fl_round x - x\<bar> \<le> \<bar>x\<bar> * pow2 (- 53)" by (rule fl_round_error)
  then show ?thesis using assms(1) by (simp add: algebra_simps abs_le_iff)
qed

lemma fl_round_ge_pow2: assumes "pow2 k \<le> x" "- 1022 \<le> k" shows "pow2 k \<le> fl_round x"
proof -
  have "fl_round (pow2 k) \<le> fl_round x" using assms(1) by (rule fl_round_mono)
  then show ?thesis using assms(2) by (simp add: fl_round_pow2)
qed

lemma fl_round_le_pow2: assumes "x \<le> pow2 k" "- 1022 \<le> k" shows "fl_round x \<le> pow2 k"
proof -
  have "fl_round x \<le> fl_round (pow2 k)" using assms(1) by (rule fl_round_mono)
  then show ?thesis using assms(2) by (simp add: fl_round_pow2)
qed

lemma float_trunc_nonneg: "0 \<le> x \<Longrightarrow> float_trunc x = \<lfloor>x\<rfloor>"
  by (simp add: float_trunc_def)

lemma float_trunc_mono: "x \<le> y \<Longrightarrow> float_trunc x \<le> float_trunc y"
  unfolding float_trunc_def
  by (auto intro: floor_mono ceiling_mono) (meson ceiling_le_zero floor_mono le_floor_iff order_trans zero_le_floor linorder_not_le order_less_imp_le)+

lemma int_truediv_fin:
  assumes "b \<noteq> 0" "\<bar>of_int a / of_int b :: rat\<bar> \<le> pow2 1023"
  shows "int_truediv a b = Inr (Fin (fl_round (of_int a / of_int b)))"
  using assms by (simp add: int_truediv_def to_float_fin)

lemma int_to_float_exact: assumes "\<bar>n\<bar> < 2 ^ 53" shows "int_to_float n = Inr (Fin (of_int n))"
  using assms by (simp add: int_to_float_def to_float_of_int)

lemma fmul_fin: assumes "\<bar>a * b\<bar> \<le> pow2 1023" shows "fmul (Fin a) (Fin b) = Fin (fl_round (a * b))"
  using assms by (simp add: to_float_fin)


section \<open>The millisecond-to-frame conversion\<close>


lemma ms_to_frame_eq:
  assumes "0 \<le> ms" "ms \<le> 2 ^ 64" "0 \<le> rate" "rate < 2 ^ 53"
  shows "ms_to_frame ms rate = Inr (frame_of ms rate)"
proof -
  have m: "(of_int ms :: rat) \<le> pow2 64"
  proof -
    have "(of_int ms :: rat) \<le> of_int (2 ^ 64)" using assms(2) by (simp only: of_int_le_iff)
    then show ?thesis by (simp add: pow2_def)
  qed
  have r: "(of_int rate :: rat) \<le> pow2 53"
  proof -
    have "(of_int rate :: rat) \<le> of_int (2 ^ 53)" using assms(4) by (simp only: of_int_le_iff)
    then show ?thesis by (simp add: pow2_def)
  qed
  have x0: "(0::rat) \<le> of_int ms / 1000" using assms(1) by simp
  have x1: "(of_int ms :: rat) / 1000 \<le> pow2 64" using m assms(1) by simp
  have "pow2 64 \<le> pow2 1023" by (intro pow2_mono) simp
  then have d: "int_truediv ms 1000 = Inr (Fin (fl_round (of_int ms / 1000)))"
    using x0 x1 int_truediv_fin[of 1000 ms] by simp
  let ?a = "fl_round (of_int ms / 1000)"
  have a0: "0 \<le> ?a" using x0 by (rule fl_round_nonneg)
  have a1: "?a \<le> pow2 64" using x1 by (intro fl_round_le_pow2) simp_all
  have "?a * of_int rate \<le> pow2 64 * pow2 53"
    using a0 a1 r assms(3) by (intro mult_mono) simp_all
  also have "\<dots> = pow2 (64 + 53)" by (rule pow2_add[symmetric])
  also have "\<dots> \<le> pow2 1023" by (intro pow2_mono) simp
  finally have "\<bar>?a * of_int rate\<bar> \<le> pow2 1023" using a0 assms(3) by simp
  then have f: "fmul (Fin ?a) (Fin (of_int rate)) = Fin (fl_round (?a * of_int rate))"
    by (rule fmul_fin)
  have i: "int_to_float rate = Inr (Fin (of_int rate))"
    using assms(3,4) by (intro int_to_float_exact) simp
  show ?thesis using f by (simp add: ms_to_frame_def d i ebind_def frame_of_def)
qed

lemma frame_of_mono: assumes "0 \<le> rate" "ms \<le> ms'" shows "frame_of ms rate \<le> frame_of ms' rate"
proof -
  have "(of_int ms :: rat) / 1000 \<le> of_int ms' / 1000" using assms(2) by simp
  then have "fl_round (of_int ms / 1000) \<le> fl_round (of_int ms' / 1000)" by (rule fl_round_mono)
  then have "fl_round (of_int ms / 1000) * of_int rate \<le> fl_round (of_int ms' / 1000) * of_int rate"
    using assms(1) by (intro mult_right_mono) simp_all
  then show ?thesis unfolding frame_of_def by (intro float_trunc_mono fl_round_mono)
qed

lemma frame_of_zero: "frame_of 0 rate = 0"
  by (simp add: frame_of_def fl_round_0 float_trunc_def)

lemma frame_of_nonneg: assumes "0 \<le> rate" "0 \<le> ms" shows "0 \<le> frame_of ms rate"
  using frame_of_mono[OF assms(1), of 0 ms] assms(2) by (simp add: frame_of_zero)

lemma ulp_pow4: "(1 + pow2 (- 53)) ^ 4 \<le> 1 + pow2 (- 50)"
  by (simp add: pow2_def power4_eq_xxxx field_simps)


lemma of_int_le_pow2: assumes "n \<le> 2 ^ k" shows "(of_int n :: rat) \<le> pow2 (int k)"
proof -
  have "(of_int n :: rat) \<le> of_int (2 ^ k)" using assms by (simp only: of_int_le_iff)
  then show ?thesis by (simp add: pow2_nat)
qed

lemma wave_duration_zero: "wave_duration 0 rate = 0"
  by (simp add: wave_duration_def fl_round_0 float_trunc_def)

lemma frame_of_le_total:
  assumes T: "0 \<le> T" "T < 2 ^ 32" and R: "1 \<le> R" "R < 2 ^ 32"
    and ms: "0 \<le> ms" "ms \<le> wave_duration T R"
  shows "frame_of ms R \<le> T"
proof (cases "T = 0 \<or> ms = 0")
  case True
  then have "ms = 0" using ms by (auto simp: wave_duration_zero)
  then show ?thesis using T by (simp add: frame_of_zero)
next
  case False
  then have T1: "1 \<le> T" and ms1: "1 \<le> ms" using T ms by auto
  define k :: rat where "k = 1 + pow2 (- 53)"
  have k: "0 < k" "1 \<le> k" using pow2_pos[of "- 53"] by (simp_all add: k_def)
  define rT :: rat where "rT = of_int T"
  define rR :: rat where "rR = of_int R"
  have rR: "1 \<le> rR" "rR \<le> pow2 32"
    using R of_int_le_pow2[of R 32] by (simp_all add: rR_def)
  have rT: "1 \<le> rT" "rT \<le> pow2 32"
    using T T1 of_int_le_pow2[of T 32] by (simp_all add: rT_def)
  define x0 where "x0 = rT / rR"
  have x0_lo: "pow2 (- 32) \<le> x0"
  proof -
    have "pow2 (- 32) * rR \<le> pow2 (- 32) * pow2 32"
      using rR pow2_pos[of "- 32"] by (intro mult_left_mono) simp_all
    also have "\<dots> = 1" unfolding pow2_add[symmetric] by (simp add: pow2_def)
    also have "\<dots> \<le> rT" by (rule rT)
    finally show ?thesis using rR by (simp add: x0_def pos_le_divide_eq)
  qed
  have n1022: "pow2 (- 1022) \<le> pow2 (- 32)" by (intro pow2_mono) simp
  have x0_pos: "0 \<le> x0" using rT rR by (simp add: x0_def)
  define a where "a = fl_round x0"
  have a_le: "a \<le> x0 * k"
    unfolding a_def k_def using x0_pos x0_lo n1022 by (intro fl_round_le_rel) auto
  have a_lo: "pow2 (- 32) \<le> a" unfolding a_def using x0_lo by (intro fl_round_ge_pow2) simp_all
  define b where "b = fl_round (a * 1000)"
  have a1000: "pow2 (- 32) \<le> a * 1000" using a_lo pow2_pos[of "- 32"] by simp
  have b_le: "b \<le> a * 1000 * k"
    unfolding b_def k_def using a1000 n1022 pow2_pos[of "- 32"] by (intro fl_round_le_rel) auto
  have b0: "0 \<le> b" unfolding b_def using a1000 pow2_pos[of "- 32"] by (intro fl_round_nonneg) simp
  have dur: "wave_duration T R = \<lfloor>b\<rfloor>"
    using b0 by (simp add: wave_duration_def b_def a_def x0_def rT_def rR_def float_trunc_def)
  have "of_int ms \<le> (of_int \<lfloor>b\<rfloor> :: rat)" using ms(2) by (simp only: dur of_int_le_iff)
  also have "\<dots> \<le> b" by simp
  finally have ms_b: "of_int ms \<le> b" .
  define x2 :: rat where "x2 = of_int ms / 1000"
  have x2_le: "x2 \<le> x0 * k ^ 2"
  proof -
    have "x2 \<le> b / 1000" using ms_b by (simp add: x2_def)
    also have "\<dots> \<le> a * k" using b_le by simp
    also have "\<dots> \<le> x0 * k * k" using a_le k by (intro mult_right_mono) simp_all
    finally show ?thesis by (simp add: power2_eq_square mult.assoc)
  qed
  have x2_lo: "pow2 (- 10) \<le> x2"
  proof -
    have "(1 :: rat) \<le> of_int ms" using ms1 by simp
    then show ?thesis by (simp add: x2_def pow2_def)
  qed
  have n1022': "pow2 (- 1022) \<le> pow2 (- 10)" by (intro pow2_mono) simp
  define c where "c = fl_round x2"
  have c_le: "c \<le> x2 * k"
    unfolding c_def k_def using x2_lo n1022' pow2_pos[of "- 10"] by (intro fl_round_le_rel) auto
  have c_lo: "pow2 (- 10) \<le> c" unfolding c_def using x2_lo by (intro fl_round_ge_pow2) simp_all
  have c_le3: "c \<le> x0 * k ^ 3"
  proof -
    have "c \<le> x2 * k" by (rule c_le)
    also have "\<dots> \<le> x0 * k ^ 2 * k" using x2_le k by (intro mult_right_mono) simp_all
    finally show ?thesis by (simp add: power3_eq_cube power2_eq_square mult.assoc)
  qed
  define x3 where "x3 = c * rR"
  have x3_lo: "pow2 (- 10) \<le> x3"
  proof -
    have "pow2 (- 10) * 1 \<le> c * rR" using c_lo rR pow2_pos[of "- 10"] by (intro mult_mono) simp_all
    then show ?thesis by (simp add: x3_def)
  qed
  have x3_le: "x3 \<le> rT * k ^ 3"
  proof -
    have "x3 \<le> x0 * k ^ 3 * rR" unfolding x3_def using c_le3 rR by (intro mult_right_mono) simp_all
    also have "\<dots> = rT * k ^ 3" using rR by (simp add: x0_def)
    finally show ?thesis .
  qed
  define e where "e = fl_round x3"
  have e_le: "e \<le> x3 * k"
    unfolding e_def k_def using x3_lo n1022' pow2_pos[of "- 10"] by (intro fl_round_le_rel) auto
  have e0: "0 \<le> e" unfolding e_def using x3_lo pow2_pos[of "- 10"] by (intro fl_round_nonneg) simp
  have "e \<le> rT * k ^ 3 * k" using e_le x3_le k by (meson mult_right_mono order_trans less_imp_le)
  then have e4: "e \<le> rT * k ^ 4" by (simp add: power4_eq_xxxx power3_eq_cube mult.assoc)
  have "k ^ 4 \<le> 1 + pow2 (- 50)" unfolding k_def by (rule ulp_pow4)
  then have "rT * k ^ 4 \<le> rT * (1 + pow2 (- 50))" using rT by (intro mult_left_mono) simp_all
  also have "\<dots> = rT + rT * pow2 (- 50)" by (simp add: algebra_simps)
  also have "\<dots> \<le> rT + pow2 32 * pow2 (- 50)"
    using rT pow2_pos[of "- 50"] by (simp add: mult_right_mono)
  also have "\<dots> < rT + 1" by (simp add: pow2_def)
  finally have "e < rT + 1" using e4 by simp
  then have "e < of_int (T + 1)" by (simp add: rT_def)
  then have "\<lfloor>e\<rfloor> < T + 1" by (simp only: floor_less_iff)
  then show ?thesis
    using e0 by (simp add: frame_of_def e_def x3_def c_def x2_def rR_def float_trunc_def)
qed


section \<open>Loading a raw-PCM file\<close>


lemma divide_le_self: assumes "0 \<le> a" "1 \<le> b" shows "a / b \<le> (a :: rat)"
proof -
  have "a * 1 \<le> a * b" using assms by (intro mult_left_mono) simp_all
  then show ?thesis using assms by (simp add: pos_divide_le_eq)
qed

lemma wave_opened_bounds:
  assumes "wave_opened w"
  shows "1 \<le> framesize w" "0 \<le> nframes w" "nframes w < 2 ^ 32"
    "nframes w * framesize w \<le> int (length (frames w))"
proof -
  have c: "1 \<le> nchannels w" and s: "1 \<le> sampwidth w"
    and l: "int (length (frames w)) < 2 ^ 32"
    and n: "nframes w = int (length (frames w)) div framesize w"
    using assms by (simp_all add: wave_opened_def)
  have "1 * 1 \<le> nchannels w * sampwidth w" using c s by (intro mult_mono) simp_all
  then show fs: "1 \<le> framesize w" by (simp add: framesize_def)
  show "0 \<le> nframes w" using fs by (simp add: n pos_imp_zdiv_nonneg_iff)
  have m: "int (length (frames w)) div framesize w * framesize w \<le> int (length (frames w))"
  proof -
    have "0 \<le> int (length (frames w)) mod framesize w" using fs by simp
    then show ?thesis using div_mult_mod_eq[of "int (length (frames w))" "framesize w"] by linarith
  qed
  have "0 \<le> int (length (frames w)) div framesize w" using fs by (simp add: pos_imp_zdiv_nonneg_iff)
  then have "int (length (frames w)) div framesize w * 1
      \<le> int (length (frames w)) div framesize w * framesize w"
    using fs by (intro mult_left_mono) simp_all
  then show "nframes w < 2 ^ 32" using l m by (simp add: n)
  show "nframes w * framesize w \<le> int (length (frames w))" using m by (simp add: n)
qed

lemma init_wave_zero_rate: "framerate w = 0 \<Longrightarrow> init_wave w = Inl ValueError"
  by (simp add: init_wave_def int_truediv_def ebind_def as_value_error_def)

lemma init_wave_eq:
  assumes "wave_opened w" "framerate w \<noteq> 0"
  shows "init_wave w =
    Inr \<lparr>wave_file = w, sample_rate = framerate w, channels = nchannels w,
         sample_width = sampwidth w, total_frames = nframes w,
         duration_ms = wave_duration (nframes w) (framerate w)\<rparr>"
proof -
  note b = wave_opened_bounds[OF assms(1)]
  have R: "1 \<le> framerate w" using assms by (simp add: wave_opened_def)
  define rT :: rat where "rT = of_int (nframes w)"
  define rR :: rat where "rR = of_int (framerate w)"
  have rT: "0 \<le> rT" "rT \<le> pow2 32" using b of_int_le_pow2[of "nframes w" 32] by (simp_all add: rT_def)
  have rR: "1 \<le> rR" using R by (simp add: rR_def)
  have q0: "0 \<le> rT / rR" using rT rR by simp
  have "rT / rR \<le> rT" using rT rR by (intro divide_le_self) simp_all
  then have q1: "rT / rR \<le> pow2 32" using rT by simp
  have p: "pow2 32 \<le> pow2 1023" by (intro pow2_mono) simp
  have d: "int_truediv (nframes w) (framerate w) = Inr (Fin (fl_round (rT / rR)))"
    unfolding rT_def rR_def using assms(2) q0 q1 p
    by (intro int_truediv_fin) (simp_all add: rT_def rR_def)
  let ?a = "fl_round (rT / rR)"
  have a0: "0 \<le> ?a" using q0 by (rule fl_round_nonneg)
  have a1: "?a \<le> pow2 32" using q1 by (intro fl_round_le_pow2) simp_all
  have "?a * 1000 \<le> pow2 32 * pow2 10" using a0 a1 by (intro mult_mono) (simp_all add: pow2_def)
  also have "\<dots> = pow2 (32 + 10)" by (rule pow2_add[symmetric])
  also have "\<dots> \<le> pow2 1023" by (intro pow2_mono) simp
  finally have "\<bar>?a * 1000\<bar> \<le> pow2 1023" using a0 by simp
  then have f: "fmul (Fin ?a) (Fin 1000) = Fin (fl_round (?a * 1000))" by (rule fmul_fin)
  show ?thesis using f
    by (simp add: init_wave_def d ebind_def as_value_error_def wave_duration_def rT_def rR_def)
qed

lemma wave_duration_bound:
  assumes "0 \<le> T" "T < 2 ^ 32" "1 \<le> R"
  shows "0 \<le> wave_duration T R" "wave_duration T R \<le> 2 ^ 43"
proof -
  define rT :: rat where "rT = of_int T"
  define rR :: rat where "rR = of_int R"
  have rT: "0 \<le> rT" "rT \<le> pow2 32" using assms of_int_le_pow2[of T 32] by (simp_all add: rT_def)
  have rR: "1 \<le> rR" using assms by (simp add: rR_def)
  have q0: "0 \<le> rT / rR" using rT rR by simp
  have "rT / rR \<le> rT" using rT rR by (intro divide_le_self) simp_all
  then have q1: "rT / rR \<le> pow2 32" using rT by simp
  let ?a = "fl_round (rT / rR)"
  have a0: "0 \<le> ?a" using q0 by (rule fl_round_nonneg)
  have a1: "?a \<le> pow2 32" using q1 by (intro fl_round_le_pow2) simp_all
  have "?a * 1000 \<le> pow2 32 * pow2 11" using a0 a1 by (intro mult_mono) (simp_all add: pow2_def)
  also have "\<dots> = pow2 (32 + 11)" by (rule pow2_add[symmetric])
  finally have b1: "fl_round (?a * 1000) \<le> pow2 43" by (intro fl_round_le_pow2) simp_all
  have b0: "0 \<le> fl_round (?a * 1000)" using a0 by (intro fl_round_nonneg) simp
  show "0 \<le> wave_duration T R" using b0 by (simp add: wave_duration_def float_trunc_def rT_def rR_def)
  have "\<lfloor>fl_round (?a * 1000)\<rfloor> \<le> \<lfloor>pow2 43\<rfloor>" using b1 by (rule floor_mono)
  also have "\<dots> = 2 ^ 43" by (simp add: pow2_def)
  finally show "wave_duration T R \<le> 2 ^ 43" using b0 by (simp add: wave_duration_def float_trunc_def rT_def rR_def)
qed


section \<open>Reading frame ranges\<close>


lemma wave_inv_soundpos: "wave_inv (w\<lparr>soundpos := p\<rparr>) = wave_inv w"
  by (simp add: wave_inv_def framesize_def)

lemma frame_range_soundpos: "frame_range (w\<lparr>soundpos := p\<rparr>) a b = frame_range w a b"
  by (simp add: frame_range_def framesize_def)

lemma framesize_soundpos: "framesize (w\<lparr>soundpos := p\<rparr>) = framesize w"
  by (simp add: framesize_def)

lemma length_frame_range:
  assumes "wave_inv w" "0 \<le> a" "a \<le> b" "b \<le> nframes w"
  shows "int (length (frame_range w a b)) = (b - a) * framesize w"
proof -
  have fs: "1 \<le> framesize w" and tot: "nframes w * framesize w \<le> int (length (frames w))"
    using assms(1) by (simp_all add: wave_inv_def)
  have "b * framesize w \<le> nframes w * framesize w" using assms(4) fs by (intro mult_right_mono) simp_all
  then have b: "b * framesize w \<le> int (length (frames w))" using tot by simp
  have a0: "0 \<le> a * framesize w" using assms(2) fs by simp
  have d0: "0 \<le> (b - a) * framesize w" using assms(3) fs by simp
  have "(b - a) * framesize w + a * framesize w = b * framesize w" by (simp add: algebra_simps)
  then have "nat ((b - a) * framesize w) \<le> length (frames w) - nat (a * framesize w)"
    using a0 d0 b by linarith
  then show ?thesis using d0 by (simp add: frame_range_def min_def)
qed

lemma setpos_ok: "0 \<le> p \<Longrightarrow> p \<le> nframes w \<Longrightarrow> setpos w p = Inr (w\<lparr>soundpos := p\<rparr>)"
  by (simp add: setpos_def)

lemma readframes_range:
  assumes "wave_inv w" "0 \<le> soundpos w" "0 \<le> n" "soundpos w + n \<le> nframes w"
  shows "readframes w n =
    (frame_range w (soundpos w) (soundpos w + n), w\<lparr>soundpos := soundpos w + n\<rparr>)"
proof (cases "n = 0")
  case True
  then show ?thesis by (simp add: readframes_def frame_range_def)
next
  case False
  then have n: "0 < n" using assms(3) by simp
  have fs: "1 \<le> framesize w" using assms(1) by (simp add: wave_inv_def)
  have len: "int (length (frame_range w (soundpos w) (soundpos w + n))) = n * framesize w"
    using length_frame_range[OF assms(1,2) _ assms(4)] assms(3) by simp
  have sz: "0 < n * framesize w" using n fs by simp
  have tot: "nframes w * framesize w \<le> int (length (frames w))"
    using assms(1) by (simp add: wave_inv_def)
  have "(soundpos w + n) * framesize w \<le> nframes w * framesize w"
    using assms(4) fs by (intro mult_right_mono) simp_all
  then have rem: "n * framesize w \<le> int (length (frames w)) - soundpos w * framesize w"
    using tot by (simp add: algebra_simps)
  have d: "take (nat (n * framesize w)) (drop (nat (soundpos w * framesize w)) (frames w))
      = frame_range w (soundpos w) (soundpos w + n)"
    by (simp add: frame_range_def)
  have "int (length (frame_range w (soundpos w) (soundpos w + n))) div framesize w = n"
    using fs by (simp add: len)
  then show ?thesis using False sz rem
    by (simp add: readframes_def Let_def d not_less del: length_take)
qed


section \<open>The raw-PCM helpers on a loaded file\<close>


lemma loaded_wave_fields:
  assumes "loaded_wave w c"
  shows "wave_file c = w" "sample_rate c = framerate w" "channels c = nchannels w"
    "sample_width c = sampwidth w" "total_frames c = nframes w"
    "duration_ms c = wave_duration (nframes w) (framerate w)"
    "1 \<le> framerate w" "framerate w < 2 ^ 32"
proof -
  have o: "wave_opened w" and i: "init_wave w = Inr c" using assms by (simp_all add: loaded_wave_def)
  have nz: "framerate w \<noteq> 0" using i init_wave_zero_rate[of w] by auto
  have c: "c = \<lparr>wave_file = w, sample_rate = framerate w, channels = nchannels w,
         sample_width = sampwidth w, total_frames = nframes w,
         duration_ms = wave_duration (nframes w) (framerate w)\<rparr>"
    using init_wave_eq[OF o nz] i by simp
  show "wave_file c = w" "sample_rate c = framerate w" "channels c = nchannels w"
    "sample_width c = sampwidth w" "total_frames c = nframes w"
    "duration_ms c = wave_duration (nframes w) (framerate w)"
    by (simp_all add: c)
  show "1 \<le> framerate w" "framerate w < 2 ^ 32" using o nz by (simp_all add: wave_opened_def)
qed

lemma loaded_wave_inv: assumes "loaded_wave w c" shows "wave_inv w" "soundpos w = 0" "nframes w < 2 ^ 32"
proof -
  have o: "wave_opened w" using assms by (simp add: loaded_wave_def)
  show "wave_inv w" using wave_opened_bounds[OF o] by (simp add: wave_inv_def)
  show "soundpos w = 0" using o by (simp add: wave_opened_def)
  show "nframes w < 2 ^ 32" using wave_opened_bounds[OF o] by simp
qed

lemma loaded_frame:
  assumes l: "loaded_wave w c" and ms: "0 \<le> ms" "ms \<le> duration_ms c"
  shows "ms_to_frame ms (sample_rate c) = Inr (frame_of ms (sample_rate c))"
    "0 \<le> frame_of ms (sample_rate c)" "frame_of ms (sample_rate c) \<le> total_frames c"
proof -
  note f = loaded_wave_fields[OF l] and i = loaded_wave_inv[OF l]
  have T0: "0 \<le> nframes w" using i(1) by (simp add: wave_inv_def)
  have "duration_ms c \<le> 2 ^ 43" using wave_duration_bound(2)[OF T0 i(3) f(7)] by (simp add: f)
  then have "ms \<le> 2 ^ 64" using ms(2) by simp
  moreover have R0: "0 \<le> framerate w" "framerate w < 2 ^ 53" using f(7,8) by simp_all
  ultimately show "ms_to_frame ms (sample_rate c) = Inr (frame_of ms (sample_rate c))"
    using ms(1) by (simp add: f ms_to_frame_eq)
  show "0 \<le> frame_of ms (sample_rate c)" using R0 ms(1) by (simp add: f frame_of_nonneg)
  show "frame_of ms (sample_rate c) \<le> total_frames c"
    using frame_of_le_total[OF T0 i(3) f(7,8) ms(1)] ms(2) by (simp add: f)
qed

lemma loaded_frame_mono:
  assumes "loaded_wave w c" "a \<le> b"
  shows "frame_of a (sample_rate c) \<le> frame_of b (sample_rate c)"
proof -
  have "0 \<le> framerate w" using loaded_wave_fields(7)[OF assms(1)] by simp
  then show ?thesis using assms(2) by (simp add: loaded_wave_fields[OF assms(1)] frame_of_mono)
qed

lemma wav_cut_from_front_eq:
  assumes l: "loaded_wave w c" and ms: "0 \<le> ms" "ms \<le> duration_ms c"
  shows "wav_cut_from_front c ms =
    Inr (frame_range w (frame_of ms (sample_rate c)) (total_frames c),
         c\<lparr>wave_file := w\<lparr>soundpos := total_frames c\<rparr>\<rparr>)"
proof -
  note f = loaded_wave_fields[OF l] and i = loaded_wave_inv[OF l] and fr = loaded_frame[OF l ms]
  define sf where "sf = frame_of ms (framerate w)"
  have sf: "0 \<le> sf" "sf \<le> nframes w" using fr by (simp_all add: sf_def f)
  have sp: "setpos w sf = Inr (w\<lparr>soundpos := sf\<rparr>)" using sf by (rule setpos_ok)
  have rd: "readframes (w\<lparr>soundpos := sf\<rparr>) (nframes w - sf) =
      (frame_range w sf (nframes w), w\<lparr>soundpos := nframes w\<rparr>)"
    using readframes_range[of "w\<lparr>soundpos := sf\<rparr>" "nframes w - sf"] sf i(1)
    by (simp add: wave_inv_soundpos frame_range_soundpos)
  show ?thesis
    using fr(1) by (simp add: wav_cut_from_front_def ebind_def f sf_def[symmetric] sp rd)
qed

lemma wav_cut_from_back_eq:
  assumes l: "loaded_wave w c" and ms: "0 \<le> ms" "ms \<le> duration_ms c"
  shows "wav_cut_from_back c ms =
    Inr (frame_range w 0 (total_frames c - frame_of ms (sample_rate c)),
         c\<lparr>wave_file := w\<lparr>soundpos := total_frames c - frame_of ms (sample_rate c)\<rparr>\<rparr>)"
proof -
  note f = loaded_wave_fields[OF l] and i = loaded_wave_inv[OF l] and fr = loaded_frame[OF l ms]
  define cf where "cf = frame_of ms (framerate w)"
  have cf: "0 \<le> cf" "cf \<le> nframes w" using fr by (simp_all add: cf_def f)
  have T0: "0 \<le> nframes w" using i(1) by (simp add: wave_inv_def)
  have sp: "setpos w 0 = Inr (w\<lparr>soundpos := 0\<rparr>)" using T0 by (intro setpos_ok) simp_all
  have rd: "readframes (w\<lparr>soundpos := 0\<rparr>) (nframes w - cf) =
      (frame_range w 0 (nframes w - cf), w\<lparr>soundpos := nframes w - cf\<rparr>)"
    using readframes_range[of "w\<lparr>soundpos := 0\<rparr>" "nframes w - cf"] cf i(1)
    by (simp add: wave_inv_soundpos frame_range_soundpos)
  show ?thesis
    using fr(1) by (simp add: wav_cut_from_back_def ebind_def f cf_def[symmetric] sp rd)
qed

lemma wav_extract_segment_eq:
  assumes l: "loaded_wave w c" and ms: "0 \<le> s" "s \<le> e" "e \<le> duration_ms c"
  shows "wav_extract_segment c s e =
    Inr (frame_range w (frame_of s (sample_rate c)) (frame_of e (sample_rate c)),
         c\<lparr>wave_file := w\<lparr>soundpos := frame_of e (sample_rate c)\<rparr>\<rparr>)"
proof -
  note f = loaded_wave_fields[OF l] and i = loaded_wave_inv[OF l]
  have s: "0 \<le> s" "s \<le> duration_ms c" and e: "0 \<le> e" "e \<le> duration_ms c" using ms by simp_all
  note frs = loaded_frame[OF l s] and fre = loaded_frame[OF l e]
  define sf where "sf = frame_of s (framerate w)"
  define ef where "ef = frame_of e (framerate w)"
  have sf: "0 \<le> sf" "sf \<le> ef" "ef \<le> nframes w"
    using frs fre loaded_frame_mono[OF l ms(2)] by (simp_all add: sf_def ef_def f)
  have sp: "setpos w sf = Inr (w\<lparr>soundpos := sf\<rparr>)" using sf by (intro setpos_ok) simp_all
  have rd: "readframes (w\<lparr>soundpos := sf\<rparr>) (ef - sf) =
      (frame_range w sf ef, w\<lparr>soundpos := ef\<rparr>)"
    using readframes_range[of "w\<lparr>soundpos := sf\<rparr>" "ef - sf"] sf i(1)
    by (simp add: wave_inv_soundpos frame_range_soundpos)
  show ?thesis
    using frs(1) fre(1)
    by (simp add: wav_extract_segment_def ebind_def f sf_def[symmetric] ef_def[symmetric] sp rd)
qed

lemma wav_cut_from_middle_eq:
  assumes l: "loaded_wave w c" and ms: "0 \<le> s" "s \<le> e" "e \<le> duration_ms c"
  shows "wav_cut_from_middle c s e =
    Inr (frame_range w 0 (frame_of s (sample_rate c))
           @ frame_range w (frame_of e (sample_rate c)) (total_frames c),
         c\<lparr>wave_file := w\<lparr>soundpos := total_frames c\<rparr>\<rparr>)"
proof -
  note f = loaded_wave_fields[OF l] and i = loaded_wave_inv[OF l]
  have s: "0 \<le> s" "s \<le> duration_ms c" and e: "0 \<le> e" "e \<le> duration_ms c" using ms by simp_all
  note frs = loaded_frame[OF l s] and fre = loaded_frame[OF l e]
  define sf where "sf = frame_of s (framerate w)"
  define ef where "ef = frame_of e (framerate w)"
  have sf: "0 \<le> sf" "sf \<le> ef" "ef \<le> nframes w"
    using frs fre loaded_frame_mono[OF l ms(2)] by (simp_all add: sf_def ef_def f)
  have T0: "0 \<le> nframes w" using i(1) by (simp add: wave_inv_def)
  have sp0: "setpos w 0 = Inr (w\<lparr>soundpos := 0\<rparr>)" using T0 by (intro setpos_ok) simp_all
  have rd0: "readframes (w\<lparr>soundpos := 0\<rparr>) sf = (frame_range w 0 sf, w\<lparr>soundpos := sf\<rparr>)"
    using readframes_range[of "w\<lparr>soundpos := 0\<rparr>" sf] sf i(1)
    by (simp add: wave_inv_soundpos frame_range_soundpos)
  have sp1: "setpos (w\<lparr>soundpos := sf\<rparr>) ef = Inr (w\<lparr>soundpos := ef\<rparr>)"
    using sf by (simp add: setpos_def)
  have rd1: "readframes (w\<lparr>soundpos := ef\<rparr>) (nframes w - ef) =
      (frame_range w ef (nframes w), w\<lparr>soundpos := nframes w\<rparr>)"
    using readframes_range[of "w\<lparr>soundpos := ef\<rparr>" "nframes w - ef"] sf i(1)
    by (simp add: wave_inv_soundpos frame_range_soundpos)
  show ?thesis
    using frs(1) fre(1)
    by (simp add: wav_cut_from_middle_def ebind_def f sf_def[symmetric] ef_def[symmetric]
        sp0 rd0 sp1 rd1)
qed


section \<open>The example file\<close>


lemma fl_round_numeral: "numeral n < (2 ^ 53 :: int) \<Longrightarrow> fl_round (numeral n) = numeral n"
  using fl_round_of_int[of "numeral n"] by simp

lemma fl_round_one: "fl_round 1 = 1"
  using fl_round_of_int[of 1] by simp

lemma fl_round_halves:
  "numeral n < (2 ^ 53 :: int) \<Longrightarrow> fl_round (numeral n / 2) = numeral n / 2"
  by (rule fl_round_repr[where m = "numeral n" and k = "- 1"]) (simp_all add: pow2_def)

lemma fl_round_half: "fl_round (1 / 2) = 1 / 2"
  by (rule fl_round_repr[where m = 1 and k = "- 1"]) (simp_all add: pow2_def)

lemma float_trunc_numeral: "float_trunc (numeral n) = numeral n"
  by (simp add: float_trunc_def)

lemma example_loaded: "loaded_wave example_wave example_cutter"
proof -
  have o: "wave_opened example_wave"
    by (simp add: wave_opened_def example_wave_def framesize_def)
  have d: "wave_duration 4 2 = 2000"
    by (simp add: wave_duration_def fl_round_numeral float_trunc_numeral)
  have "framerate example_wave \<noteq> 0" by (simp add: example_wave_def)
  from init_wave_eq[OF o this] have "init_wave example_wave = Inr example_cutter"
    by (simp add: example_wave_def example_cutter_def d)
  then show ?thesis using o by (simp add: loaded_wave_def)
qed

lemma example_frames:
  "frame_of 500 2 = 1" "frame_of 1500 2 = 3" "frame_of 1000 2 = 2"
  by (simp_all add: frame_of_def fl_round_half fl_round_halves fl_round_numeral fl_round_one
      float_trunc_numeral float_trunc_def)

lemma example_ranges:
  "frame_range example_wave 1 4 = ''cdefgh''"
  "frame_range example_wave 0 3 = ''abcdef''"
  "frame_range example_wave 1 3 = ''cdef''"
  "frame_range example_wave 0 1 = ''ab''"
  "frame_range example_wave 3 4 = ''gh''"
  by (simp_all add: frame_range_def example_wave_def framesize_def)


section \<open>The conversion against exact arithmetic\<close>

lemma fl_round_9_1000: "fl_round (9 / 1000) = 5188146770730811 / 576460752303423488"
proof -
  have "fl_round (9 / 1000) = of_int 5188146770730811 * pow2 (- 7 - 52)"
    by (rule fl_round_eqI) (simp_all add: pow2_def)
  then show ?thesis by (simp add: pow2_def)
qed

lemma fl_round_9_48: 
  "fl_round (1945555039024054125 / 4503599627370496) = 7599824371187711 / 17592186044416"
proof -
  have "fl_round (1945555039024054125 / 4503599627370496)
      = of_int 7599824371187711 * pow2 (8 - 52)"
    by (rule fl_round_eqI) (simp_all add: pow2_def)
  then show ?thesis by (simp add: pow2_def)
qed

lemma frame_of_9_48000: "frame_of 9 48000 = 431"
proof -
  have "\<lfloor>7599824371187711 / 17592186044416 :: rat\<rfloor> = 431"
    by (rule floor_unique) simp_all
  then show ?thesis
    by (simp add: frame_of_def fl_round_9_1000 fl_round_9_48 float_trunc_def)
qed

lemma spec_frame_div: "spec_frame ms rate = (ms * rate) div 1000"
proof -
  have "(of_int ms :: rat) / 1000 * of_int rate = of_int (ms * rate) / of_int 1000" by simp
  then show ?thesis unfolding spec_frame_def by (simp only: floor_divide_of_int_eq)
qed

lemma ulp_sq_le: "(1 + pow2 (- 53)) ^ 2 \<le> 1 + 3 * pow2 (- 53)"
  by (simp add: pow2_def power2_eq_square field_simps)

lemma ulp_sq_ge: "1 - 3 * pow2 (- 53) \<le> (1 - pow2 (- 53)) ^ 2"
  by (simp add: pow2_def power2_eq_square field_simps)

lemma frame_of_near_exact:
  assumes ms: "1 \<le> ms" and R: "1 \<le> rate" and b: "ms * rate \<le> 1000 * 2 ^ 40"
  shows "\<bar>fl_round (fl_round (of_int ms / 1000) * of_int rate) - of_int (ms * rate) / 1000\<bar>
           < 1 / 1000"
proof -
  define u where "u = pow2 (- 53)"
  have u: "0 < u" "u < 1" by (simp_all add: u_def pow2_def)
  define x :: rat where "x = of_int ms / 1000"
  define r :: rat where "r = of_int rate"
  define v :: rat where "v = of_int (ms * rate) / 1000"
  have r1: "1 \<le> r" using R by (simp add: r_def)
  have v_eq: "v = x * r" by (simp add: v_def x_def r_def)
  have x_lo: "pow2 (- 10) \<le> x"
  proof -
    have "(1 :: rat) \<le> of_int ms" using ms by simp
    then show ?thesis by (simp add: x_def pow2_def)
  qed
  have x0: "0 \<le> x" using x_lo pow2_pos[of "- 10"] by simp
  have n: "pow2 (- 1022) \<le> pow2 (- 10)" by (intro pow2_mono) simp
  define a where "a = fl_round x"
  have a_le: "a \<le> x * (1 + u)"
    unfolding a_def u_def using x0 x_lo n by (intro fl_round_le_rel) auto
  have a_ge: "x * (1 - u) \<le> a"
    unfolding a_def u_def using x0 x_lo n by (intro fl_round_ge_rel) auto
  have a_lo: "pow2 (- 10) \<le> a" unfolding a_def using x_lo by (intro fl_round_ge_pow2) simp_all
  have a0: "0 \<le> a" using a_lo pow2_pos[of "- 10"] by simp
  have ar_lo: "pow2 (- 10) \<le> a * r"
  proof -
    have "pow2 (- 10) * 1 \<le> a * r" using a_lo r1 pow2_pos[of "- 10"] by (intro mult_mono) simp_all
    then show ?thesis by simp
  qed
  have ar0: "0 \<le> a * r" using a0 r1 by simp
  define y where "y = fl_round (a * r)"
  have y_le: "y \<le> a * r * (1 + u)"
    unfolding y_def u_def using ar0 ar_lo n by (intro fl_round_le_rel) auto
  have y_ge: "a * r * (1 - u) \<le> y"
    unfolding y_def u_def using ar0 ar_lo n by (intro fl_round_ge_rel) auto
  have v0: "0 \<le> v" using x0 r1 by (simp add: v_eq)
  have v_hi: "v \<le> 2 ^ 40"
  proof -
    have "(of_int (ms * rate) :: rat) \<le> of_int (1000 * 2 ^ 40)" using b by (simp only: of_int_le_iff)
    then show ?thesis by (simp add: v_def)
  qed
  have up: "y \<le> v * (1 + 3 * u)"
  proof -
    have "a * r \<le> x * (1 + u) * r" using a_le r1 by (intro mult_right_mono) simp_all
    then have "a * r * (1 + u) \<le> x * (1 + u) * r * (1 + u)"
      using u by (simp add: mult_right_mono)
    also have "\<dots> = v * (1 + u) ^ 2" by (simp add: v_eq power2_eq_square algebra_simps)
    also have "\<dots> \<le> v * (1 + 3 * u)" unfolding u_def using v0 ulp_sq_le by (intro mult_left_mono)
    finally show ?thesis using y_le by simp
  qed
  have lo: "v * (1 - 3 * u) \<le> y"
  proof -
    have "v * (1 - 3 * u) \<le> v * (1 - u) ^ 2" unfolding u_def using v0 ulp_sq_ge by (intro mult_left_mono)
    also have "\<dots> = x * (1 - u) * r * (1 - u)" by (simp add: v_eq power2_eq_square algebra_simps)
    also have "\<dots> \<le> a * r * (1 - u)"
    proof -
      have "x * (1 - u) * r \<le> a * r" using a_ge r1 by (intro mult_right_mono) simp_all
      then show ?thesis using u by (simp add: mult_right_mono)
    qed
    finally show ?thesis using y_ge by simp
  qed
  have small: "v * (3 * u) < 1 / 1000"
  proof -
    have "v * (3 * u) \<le> 2 ^ 40 * (3 * u)" using v_hi u by (intro mult_right_mono) simp_all
    also have "\<dots> < 1 / 1000" by (simp add: u_def pow2_def)
    finally show ?thesis .
  qed
  have "y - v \<le> v * (3 * u)" using up by (simp add: algebra_simps)
  moreover have "- (v * (3 * u)) \<le> y - v" using lo by (simp add: algebra_simps)
  ultimately have "\<bar>y - v\<bar> < 1 / 1000" using small by linarith
  then show ?thesis by (simp add: y_def a_def x_def r_def v_def)
qed

section \<open>The time parser on the documented examples\<close>

lemma parse_time_min_sec: "parse_time ''1:30'' = Inr (Some 90000)"
  by (simp add: parse_time_def parse_eval)

lemma parse_time_seconds: "parse_time ''5s'' = Inr (Some 5000)"
  by (simp add: parse_time_def parse_eval)

lemma parse_time_h_m_s: "parse_time ''1:23:45'' = Inr (Some 5025000)"
  by (simp add: parse_time_def parse_eval)

lemma parse_time_millis: "parse_time ''500ms'' = Inl ValueError"
  by (simp add: parse_time_def parse_eval lower_def)

text \<open>
  The branch for the suffix \<open>ms\<close> comes after the branch for the suffix \<open>s\<close>, and every
  string that ends with \<open>ms\<close> ends with \<open>s\<close>: the branch is never taken.
\<close>

lemma endswith_iff: "endswith t suf \<longleftrightarrow> (\<exists>p. t = p @ suf)"
proof
  assume "endswith t suf"
  then have "t = take (length t - length suf) t @ suf"
    by (metis append_take_drop_id endswith_def)
  then show "\<exists>p. t = p @ suf" ..
next
  assume "\<exists>p. t = p @ suf"
  then show "endswith t suf" by (auto simp: endswith_def)
qed

lemma endswith_ms_s: "endswith t ''ms'' \<Longrightarrow> endswith t ''s''"
proof -
  assume "endswith t ''ms''"
  then obtain p where "t = p @ ''ms''" unfolding endswith_iff ..
  then have "t = (p @ ''m'') @ ''s''" by simp
  then show ?thesis unfolding endswith_iff ..
qed

text \<open>
  Claim C1.  The documented examples of the time parser: \<open>1:30\<close> gives 90000, \<open>5s\<close> gives
  5000 and \<open>1:23:45\<close> gives 5025000, as claimed.  \<open>500ms\<close> does not give 500: the string
  ends with \<open>s\<close>, so the first branch converts \<open>500m\<close> to a float and raises \<open>ValueError\<close>.
\<close>

theorem C1_parse_time_examples:
  "parse_time ''1:30'' = Inr (Some 90000) \<and>
   parse_time ''5s'' = Inr (Some 5000) \<and>
   parse_time ''1:23:45'' = Inr (Some 5025000) \<and>
   parse_time ''500ms'' = Inl ValueError"
  by (simp only: parse_time_min_sec parse_time_seconds parse_time_h_m_s parse_time_millis)

text \<open>
  Claim C2.  A string with a colon that splits into four parts is in none of the accepted
  forms, and the parser raises nothing: it falls off the end of the function and returns
  \<open>None\<close>.
\<close>

theorem C2_parse_time_four_parts: "parse_time ''1:2:3:4'' = Inr None"
  by (simp add: parse_time_def parse_eval)

section \<open>Paths and saving\<close>

lemma join_parts_snoc: "\<exists>pre. join_parts (xs @ [n]) = pre @ n"
proof (induction xs)
  case Nil
  then show ?case by simp
next
  case (Cons x xs)
  then obtain pre where pre: "join_parts (xs @ [n]) = pre @ n" ..
  show ?case
  proof (cases xs)
    case Nil
    then show ?thesis by simp
  next
    case (Cons y ys)
    then have "join_parts ((x # xs) @ [n]) = x @ ''/'' @ join_parts (xs @ [n])" by simp
    then have "join_parts ((x # xs) @ [n]) = (x @ ''/'' @ pre) @ n" by (simp add: pre)
    then show ?thesis ..
  qed
qed

lemma lower_wav: "map lower ''.wav'' = ''.wav''"
  by (simp add: lower_def)

lemma with_suffix_wav:
  assumes "with_suffix p ''.wav'' = Inr p'"
  shows "parts p' = butlast (parts p) @ [drop_last (length (suffix p)) (name p) @ ''.wav'']"
    and "anchor p' = anchor p"
    and "endswith (map lower (path_str p')) ''.wav''"
proof -
  let ?n = "drop_last (length (suffix p)) (name p) @ ''.wav''"
  have n: "name p \<noteq> []" using assms by (auto simp: with_suffix_def split: if_splits)
  have p': "p' = p\<lparr>parts := butlast (parts p) @ [?n]\<rparr>"
    using assms n by (auto simp: with_suffix_def Let_def drop_last_def split: if_splits)
  show "parts p' = butlast (parts p) @ [?n]" and "anchor p' = anchor p" by (simp_all add: p')
  obtain pre where "join_parts (butlast (parts p) @ [?n]) = pre @ ?n"
    using join_parts_snoc by blast
  then have "path_str p' = (anchor p @ pre @ drop_last (length (suffix p)) (name p)) @ ''.wav''"
    by (simp add: path_str_def p')
  then have "map lower (path_str p')
      = map lower (anchor p @ pre @ drop_last (length (suffix p)) (name p)) @ ''.wav''"
    by (simp only: map_append lower_wav)
  then show "endswith (map lower (path_str p')) ''.wav''" unfolding endswith_iff ..
qed

lemma example_out_path:
  "path_str \<lparr>anchor = [], parts = [''music'', ''out.mp3'']\<rparr> = ''music/out.mp3''"
  "path_str \<lparr>anchor = [], parts = [''music'', ''out.wav'']\<rparr> = ''music/out.wav''"
  "with_suffix \<lparr>anchor = [], parts = [''music'', ''out.mp3'']\<rparr> ''.wav''
     = Inr \<lparr>anchor = [], parts = [''music'', ''out.wav'']\<rparr>"
  by (simp_all add: path_str_def with_suffix_def name_def suffix_def drop_last_def)

lemma example_save:
  "save_audio example_pydub (\<lambda>p. True) (WaveCutter example_cutter) (Frames ''cdef'')
      \<lparr>anchor = [], parts = [''music'', ''out.mp3'']\<rparr> (Some ''mp3'')
    = Inr (\<lparr>anchor = [], parts = [''music'', ''out.wav'']\<rparr>,
           Wav_container ''music/out.wav'' 2 1 2 ''cdef'')"
  by (simp add: save_audio_def ebind_def example_out_path endswith_def lower_def
      example_cutter_def)

section \<open>Division and remainder of floats\<close>

lemma c_fmod_nonneg:
  assumes "0 \<le> x" "0 < D"
  shows "c_fmod x (of_int D) = x - of_int D * of_int \<lfloor>x / of_int D\<rfloor>"
    and "0 \<le> c_fmod x (of_int D)"
proof -
  have d: "(0::rat) < of_int D" using assms(2) by simp
  have q: "0 \<le> x / of_int D" using assms(1) d by simp
  show e: "c_fmod x (of_int D) = x - of_int D * of_int \<lfloor>x / of_int D\<rfloor>"
    using q by (simp add: c_fmod_def float_trunc_def)
  have "of_int \<lfloor>x / of_int D\<rfloor> \<le> x / of_int D" by (rule of_int_floor_le)
  then have "of_int \<lfloor>x / of_int D\<rfloor> * of_int D \<le> x"
    using d by (simp only: pos_le_divide_eq)
  then show "0 \<le> c_fmod x (of_int D)" by (simp only: e) (simp add: mult.commute)
qed

lemma float_rem_nonneg:
  assumes "0 \<le> x" "0 < D"
  shows "float_rem x (of_int D) = x - of_int D * of_int \<lfloor>x / of_int D\<rfloor>"
proof -
  note c = c_fmod_nonneg[OF assms]
  have d: "\<not> (of_int D :: rat) < 0" using assms(2) by simp
  have m: "\<not> c_fmod x (of_int D) < 0" using c(2) by simp
  show ?thesis unfolding float_rem_def Let_def using d m c(1) by auto
qed

lemma float_floor_div_nonneg:
  assumes x: "0 \<le> x" and D: "0 < D" and k: "\<lfloor>x / of_int D\<rfloor> = k" and b: "D * k < 2 ^ 53"
  shows "float_floor_div x (of_int D) = of_int k"
proof -
  note c = c_fmod_nonneg[OF x D]
  have d: "(0::rat) < of_int D" using D by simp
  have k0: "0 \<le> k" using x d k by (metis divide_nonneg_pos zero_le_floor)
  have "1 * k \<le> D * k" using D k0 by (intro mult_right_mono) simp_all
  then have kb: "\<bar>k\<bar> < 2 ^ 53" "\<bar>D * k\<bar> < 2 ^ 53" using b k0 D by simp_all
  have m: "c_fmod x (of_int D) = x - of_int D * of_int k" using c(1) k by simp
  have "x - c_fmod x (of_int D) = of_int (D * k)" by (simp add: m)
  then have 1: "fl_round (x - c_fmod x (of_int D)) = of_int (D * k)"
    using kb(2) by (simp only: fl_round_of_int)
  have "(of_int (D * k) :: rat) / of_int D = of_int k" using d by simp
  then have 2: "fl_round (fl_round (x - c_fmod x (of_int D)) / of_int D) = of_int k"
    using kb(1) by (simp only: 1 fl_round_of_int)
  have nz: "\<not> (c_fmod x (of_int D) \<noteq> 0 \<and> ((of_int D :: rat) < 0) \<noteq> (c_fmod x (of_int D) < 0))"
    using c(2) d by auto
  have 3: "fl_round ((of_int k :: rat) - of_int \<lfloor>(of_int k :: rat)\<rfloor>) = 0" by (simp add: fl_round_0)
  show ?thesis
    unfolding float_floor_div_def Let_def using nz by (simp only: 2 if_False 3) simp
qed

section \<open>The seconds of a duration\<close>

lemma total_seconds_bounds:
  assumes "0 \<le> v" "v < 2 ^ 52"
  shows "int_truediv v 1000 = Inr (Fin (fl_round (of_int v / 1000)))"
    and "\<bar>fl_round (of_int v / 1000) - of_int v / 1000\<bar> < 1 / 2000"
    and "0 \<le> fl_round (of_int v / 1000)"
proof -
  define t :: rat where "t = of_int v / 1000"
  have t0: "0 \<le> t" using assms(1) by (simp add: t_def)
  have "(of_int v :: rat) < of_int (2 ^ 52)" using assms(2) by (simp only: of_int_less_iff)
  then have tb: "t < 2 ^ 52 / 1000" by (simp add: t_def)
  then have "t \<le> pow2 1023" by (simp add: pow2_def)
  then have "\<bar>of_int v / of_int 1000 :: rat\<bar> \<le> pow2 1023" using t0 by (simp add: t_def)
  then have "int_truediv v 1000 = Inr (Fin (fl_round (of_int v / of_int 1000)))"
    by (intro int_truediv_fin) simp_all
  then show "int_truediv v 1000 = Inr (Fin (fl_round (of_int v / 1000)))" by simp
  show "0 \<le> fl_round (of_int v / 1000)" using t0 unfolding t_def by (rule fl_round_nonneg)
  show "\<bar>fl_round (of_int v / 1000) - of_int v / 1000\<bar> < 1 / 2000"
  proof (cases "v = 0")
    case True
    then show ?thesis by (simp add: fl_round_0)
  next
    case False
    then have "(1 :: rat) \<le> of_int v" using assms(1) by simp
    then have "pow2 (- 10) \<le> t" by (simp add: t_def pow2_def)
    moreover have "pow2 (- 1022) \<le> pow2 (- 10)" by (intro pow2_mono) simp
    ultimately have "pow2 (- 1022) \<le> \<bar>t\<bar>" using t0 by simp
    then have "\<bar>fl_round t - t\<bar> \<le> \<bar>t\<bar> * pow2 (- 53)" by (rule fl_round_error)
    also have "\<dots> = t * pow2 (- 53)" using t0 by simp
    also have "\<dots> < 2 ^ 52 / 1000 * pow2 (- 53)"
      using tb pow2_pos[of "- 53"] by (intro mult_strict_right_mono)
    also have "\<dots> = 1 / 2000" by (simp add: pow2_def)
    finally show ?thesis by (simp add: t_def)
  qed
qed

text \<open>The rounded quotient lies in the same block of \<open>D\<close> seconds as the exact one.\<close>

lemma total_seconds_block:
  assumes v: "0 \<le> v" "v < 2 ^ 52" and D: "0 < D"
  shows "\<lfloor>fl_round (of_int v / 1000) / of_int D\<rfloor> = v div (1000 * D)"
proof -
  define ts where "ts = fl_round (of_int v / 1000)"
  define k where "k = v div (1000 * D)"
  define r where "r = v mod (1000 * D)"
  have D1000: "0 < 1000 * D" using D by simp
  have r: "0 \<le> r" "r < 1000 * D" using D1000 by (simp_all add: r_def)
  have vk: "v = 1000 * D * k + r" by (simp add: k_def r_def)
  have k0: "0 \<le> k" using v(1) D1000 by (simp add: k_def pos_imp_zdiv_nonneg_iff)
  have dk: "D * k \<le> v"
  proof -
    have "D * k * 1 \<le> D * k * 1000" using D k0 by (intro mult_left_mono) simp_all
    then show ?thesis using vk r by (simp add: algebra_simps)
  qed
  have lo: "of_int (D * k) \<le> ts"
  proof -
    have "1000 * (D * k) \<le> v" using vk r by (simp add: algebra_simps)
    then have "(of_int (1000 * (D * k)) :: rat) \<le> of_int v" by (simp only: of_int_le_iff)
    then have "(of_int (D * k) :: rat) \<le> of_int v / 1000" by simp
    then have "fl_round (of_int (D * k)) \<le> ts" unfolding ts_def by (rule fl_round_mono)
    moreover have "\<bar>D * k\<bar> < 2 ^ 53" using dk v D k0 by simp
    ultimately show ?thesis by (simp only: fl_round_of_int)
  qed
  have hi: "ts < of_int (D * k + D)"
  proof (cases "r = 0")
    case True
    then have "(of_int v :: rat) / 1000 = of_int (D * k)" using vk by simp
    moreover have "\<bar>D * k\<bar> < 2 ^ 53" using dk v D k0 by simp
    ultimately have "ts = of_int (D * k)" unfolding ts_def by (simp only: fl_round_of_int)
    then show ?thesis using D by simp
  next
    case False
    then have "v + 1 \<le> 1000 * D * k + 1000 * D" using vk r by linarith
    then have "v + 1 \<le> 1000 * (D * k + D)" by (simp add: algebra_simps)
    then have "(of_int (v + 1) :: rat) \<le> of_int (1000 * (D * k + D))" by (simp only: of_int_le_iff)
    then have "(of_int v + 1) / 1000 \<le> (of_int (D * k + D) :: rat)" by simp
    then have a: "(of_int v :: rat) / 1000 + 1 / 1000 \<le> of_int (D * k + D)"
      by (simp only: add_divide_distrib)
    have "\<bar>ts - of_int v / 1000\<bar> < 1 / 2000"
      unfolding ts_def using v by (rule total_seconds_bounds(2))
    then have "ts < of_int v / 1000 + 1 / 2000" unfolding abs_less_iff by linarith
    then show ?thesis using a by linarith
  qed
  have d: "(0 :: rat) < of_int D" using D by simp
  have "of_int k \<le> ts / of_int D"
    using lo d by (simp add: pos_le_divide_eq mult.commute)
  moreover have "ts / of_int D < of_int k + 1"
    using hi d by (simp add: pos_divide_less_eq algebra_simps)
  ultimately have "\<lfloor>ts / of_int D\<rfloor> = k" by (intro floor_unique)
  then show ?thesis by (simp add: ts_def k_def)
qed

section \<open>The formatter in integer arithmetic\<close>

lemma format_duration_eq:
  assumes v: "0 \<le> v" "v < 2 ^ 52"
  shows "format_duration v = Inr (hms_string v)"
proof -
  define ts where "ts = fl_round (of_int v / 1000)"
  define H where "H = v div 3600000"
  define K where "K = v div 60000"
  define M where "M = K mod 60"
  define S where "S = v mod 60000"
  note tb = total_seconds_bounds[OF v, folded ts_def]
  have ts0: "0 \<le> ts" by (rule tb(3))
  have bH: "\<lfloor>ts / of_int 3600\<rfloor> = H"
    using total_seconds_block[OF v, of 3600] by (simp add: ts_def H_def)
  have bK: "\<lfloor>ts / of_int 60\<rfloor> = K"
    using total_seconds_block[OF v, of 60] by (simp add: ts_def K_def)
  have H0: "0 \<le> H" using v by (simp add: H_def pos_imp_zdiv_nonneg_iff)
  have K0: "0 \<le> K" using v by (simp add: K_def pos_imp_zdiv_nonneg_iff)
  have KH: "K div 60 = H" by (simp add: K_def H_def zdiv_zmult2_eq[symmetric])
  have M: "0 \<le> M" "M < 60" "K = 60 * H + M"
    using mult_div_mod_eq[of 60 K] by (simp_all add: M_def KH)
  have S: "0 \<le> S" "S < 60000" "v = 60000 * K + S" by (simp_all add: S_def K_def)
  have Hv: "3600 * H \<le> v" using M S K0 H0 by linarith
  have fdH: "float_floor_div ts (of_int 3600) = of_int H"
    using ts0 _ bH by (rule float_floor_div_nonneg) (use Hv v in simp_all)
  have hours: "float_trunc (float_floor_div ts 3600) = H"
    using fdH H0 by (simp add: float_trunc_def)
  have rem: "float_rem ts (of_int 3600) = ts - of_int 3600 * of_int H"
    using float_rem_nonneg[OF ts0, of 3600] bH by simp
  define r where "r = ts - 3600 * of_int H"
  have r0: "0 \<le> r"
    using c_fmod_nonneg(1,2)[OF ts0, of 3600] bH by (simp add: r_def)
  have "r / 60 = ts / 60 - of_int (60 * H)" by (simp add: r_def diff_divide_distrib)
  then have "\<lfloor>r / 60\<rfloor> = \<lfloor>ts / 60\<rfloor> - 60 * H" by (simp only: floor_diff_of_int)
  then have bM: "\<lfloor>r / of_int 60\<rfloor> = M" using bK M(3) by simp
  have fdM: "float_floor_div r (of_int 60) = of_int M"
    using r0 _ bM by (rule float_floor_div_nonneg) (use M in simp_all)
  have minutes: "float_trunc (float_floor_div (float_rem ts 3600) 60) = M"
    using fdM M(1) rem by (simp add: float_trunc_def r_def)
  define sec where "sec = ts - 60 * of_int K"
  have seconds: "float_rem ts 60 = sec"
    using float_rem_nonneg[OF ts0, of 60] bK by (simp add: sec_def)
  have sec0: "0 \<le> sec"
    using c_fmod_nonneg(1,2)[OF ts0, of 60] bK by (simp add: sec_def)
  define dl where "dl = ts - of_int v / 1000"
  have dl: "\<bar>dl\<bar> < 1 / 2000" using tb(2) by (simp only: dl_def)
  have "(of_int v :: rat) = of_int (60000 * K + S)" using S(3) by (simp only:)
  then have vr: "(of_int v :: rat) = 60000 * of_int K + of_int S" by simp
  have "sec * 1000 - of_int S = 1000 * dl"
    unfolding sec_def dl_def vr by (simp add: algebra_simps)
  moreover have "\<bar>1000 * dl\<bar> = 1000 * \<bar>dl\<bar>" by (simp add: abs_mult)
  ultimately have "\<bar>sec * 1000 - of_int S\<bar> < 1 / 2" using dl by linarith
  then have "rne (sec * 1000) = S" by (rule rne_eqI)
  then have rn: "nat (rne (\<bar>sec\<bar> * 1000)) = nat S" using sec0 by simp
  have nd: "nat S div 1000 = nat (S div 1000)" "nat S mod 1000 = nat (S mod 1000)"
    using S(1) by (simp_all add: nat_div_distrib nat_mod_distrib)
  have f3: "fmt_06_3f sec = zfill 6 (show_nat (nat (S div 1000)) @ ''.''
                           @ zfill 3 (show_nat (nat (S mod 1000))))"
    using sec0 unfolding fmt_06_3f_def Let_def rn nd by simp
  have "format_duration v =
      Inr (if 0 < H then fmt_02d H @ '':'' @ fmt_02d M @ '':'' @ fmt_06_3f sec
           else fmt_02d M @ '':'' @ fmt_06_3f sec)"
    unfolding format_duration_def tb(1) ebind_def Let_def
    by (simp only: sum.case pyfloat.case hours minutes seconds)
  then show ?thesis
    unfolding hms_string_def Let_def f3
    by (simp only: H_def[symmetric] K_def[symmetric] M_def[symmetric] S_def[symmetric])
qed

section \<open>Digit strings\<close>

lemma is_digit_digit_char: "d < 10 \<Longrightarrow> is_digit (digit_char d)"
  by (simp add: is_digit_def digit_char_def)

lemma digit_val_digit_char: "d < 10 \<Longrightarrow> digit_val (digit_char d) = d"
  by (simp add: digit_val_def digit_char_def)

lemma is_digit_zero: "is_digit (CHR ''0'')" "digit_val (CHR ''0'') = 0"
  by (simp_all add: is_digit_def digit_val_def)

lemma show_nat_digits: "list_all is_digit (show_nat n) \<and> show_nat n \<noteq> []"
proof (induction n rule: show_nat.induct)
  case (1 n)
  show ?case
  proof (cases "n < 10")
    case True
    then show ?thesis by (subst (1 2) show_nat.simps) (simp add: is_digit_digit_char)
  next
    case False
    then have "list_all is_digit (show_nat (n div 10))" using 1 by simp
    then show ?thesis using False
      by (subst (1 2) show_nat.simps) (simp add: is_digit_digit_char)
  qed
qed

lemma digits_val_append: "digits_val acc (xs @ ys) = digits_val (digits_val acc xs) ys"
  by (induction xs arbitrary: acc) simp_all

lemma digits_val_acc: "digits_val acc xs = acc * 10 ^ length xs + digits_val 0 xs"
proof (induction xs arbitrary: acc)
  case Nil
  then show ?case by simp
next
  case (Cons c cs)
  have "digits_val acc (c # cs) = digits_val (10 * acc + digit_val c) cs" by simp
  also have "\<dots> = (10 * acc + digit_val c) * 10 ^ length cs + digits_val 0 cs" by (rule Cons)
  also have "digits_val 0 (c # cs) = digit_val c * 10 ^ length cs + digits_val 0 cs"
    using Cons[of "digit_val c"] by simp
  ultimately show ?case by (simp add: algebra_simps)
qed

lemma digits_val_show_nat: "digits_val 0 (show_nat n) = n"
proof (induction n rule: show_nat.induct)
  case (1 n)
  show ?case
  proof (cases "n < 10")
    case True
    then show ?thesis by (subst show_nat.simps) (simp add: digit_val_digit_char)
  next
    case False
    then have ih: "digits_val 0 (show_nat (n div 10)) = n div 10" using 1 by simp
    have "digits_val 0 (show_nat n)
        = digits_val 0 (show_nat (n div 10) @ [digit_char (n mod 10)])"
      using False by (subst show_nat.simps) simp
    also have "\<dots> = 10 * (n div 10) + n mod 10"
      by (simp add: digits_val_append ih digit_val_digit_char)
    finally show ?thesis by simp
  qed
qed

lemma length_show_nat: "n < 10 ^ k \<Longrightarrow> 0 < k \<Longrightarrow> length (show_nat n) \<le> k"
proof (induction n arbitrary: k rule: show_nat.induct)
  case (1 n)
  show ?case
  proof (cases "n < 10")
    case True
    then show ?thesis using 1(3) by (subst show_nat.simps) simp
  next
    case False
    obtain j where k: "k = Suc j" using 1(3) by (cases k) simp_all
    have "j \<noteq> 0" using False 1(2) k by (cases j) simp_all
    then have j: "0 < j" by simp
    have "n div 10 < 10 ^ j" using 1(2) k by (simp add: div_less_iff_less_mult mult.commute)
    then have "length (show_nat (n div 10)) \<le> j" using 1(1)[OF False _ j] by simp
    then show ?thesis using False k by (subst show_nat.simps) simp
  qed
qed

lemma zfill_digits: "list_all is_digit s \<Longrightarrow> list_all is_digit (zfill w s)"
  by (auto simp: zfill_def list_all_iff is_digit_zero)

lemma digits_val_zeros: "digits_val 0 (replicate k (CHR ''0'')) = 0"
  by (induction k) (simp_all add: is_digit_zero)

lemma digits_val_zfill: "digits_val 0 (zfill w s) = digits_val 0 s"
  by (simp add: zfill_def digits_val_append digits_val_zeros)

lemma zfill_nonempty: "s \<noteq> [] \<Longrightarrow> zfill w s \<noteq> []"
  by (simp add: zfill_def)

lemma length_zfill_3: "n < 1000 \<Longrightarrow> length (zfill 3 (show_nat n)) = 3"
  using length_show_nat[of n 3] by (simp add: zfill_def)

section \<open>The segment editor on a loaded source\<close>

text \<open>
  Claim C3.  On a loaded source, removing \<open>d\<close> milliseconds from the front or from the
  back raises \<open>ValueError\<close> (the specification's range error) exactly when \<open>d \<le> 0\<close> or
  \<open>d\<close> is at least the source duration.  Otherwise the raw-PCM backend returns the bytes of
  the frames from the frame of \<open>d\<close> to the end, respectively of the first
  \<open>total - frame d\<close> frames, and the other backend returns the slices \<open>audio[d:]\<close> and
  \<open>audio[:-d]\<close> of the decode/encode library.
\<close>

theorem C3_cut_front_back:
  assumes "loaded_wave w c"
  shows "cut_from_front P (WaveCutter c) d =
      (if d \<le> 0 \<or> duration_ms c \<le> d then Inl ValueError
       else Inr (Frames (frame_range w (frame_of d (sample_rate c)) (total_frames c)),
                 WaveCutter (c\<lparr>wave_file := w\<lparr>soundpos := total_frames c\<rparr>\<rparr>)))
    \<and> cut_from_back P (WaveCutter c) d =
      (if d \<le> 0 \<or> duration_ms c \<le> d then Inl ValueError
       else Inr (Frames (frame_range w 0 (total_frames c - frame_of d (sample_rate c))),
                 WaveCutter (c\<lparr>wave_file :=
                   w\<lparr>soundpos := total_frames c - frame_of d (sample_rate c)\<rparr>\<rparr>)))
    \<and> cut_from_front P (PydubCutter a) d =
      (if d \<le> 0 \<or> seg_len P a \<le> d then Inl ValueError
       else Inr (Segment (seg_slice P a (Some d) None), PydubCutter a))
    \<and> cut_from_back P (PydubCutter a) d =
      (if d \<le> 0 \<or> seg_len P a \<le> d then Inl ValueError
       else Inr (Segment (seg_slice P a None (Some (- d))), PydubCutter a))"
proof -
  have front: "cut_from_front P (WaveCutter c) d =
      Inr (Frames (frame_range w (frame_of d (sample_rate c)) (total_frames c)),
           WaveCutter (c\<lparr>wave_file := w\<lparr>soundpos := total_frames c\<rparr>\<rparr>))"
    if "0 < d" and "d < duration_ms c"
    using that wav_cut_from_front_eq[OF assms, of d]
    by (simp add: cut_from_front_def lift_wave_def ebind_def)
  have bck: "cut_from_back P (WaveCutter c) d =
      Inr (Frames (frame_range w 0 (total_frames c - frame_of d (sample_rate c))),
           WaveCutter (c\<lparr>wave_file :=
             w\<lparr>soundpos := total_frames c - frame_of d (sample_rate c)\<rparr>\<rparr>))"
    if "0 < d" and "d < duration_ms c"
    using that wav_cut_from_back_eq[OF assms, of d]
    by (simp add: cut_from_back_def lift_wave_def ebind_def)
  have fail: "cut_from_front P (WaveCutter c) d = Inl ValueError"
    "cut_from_back P (WaveCutter c) d = Inl ValueError" if "d \<le> 0 \<or> duration_ms c \<le> d"
    using that by (auto simp: cut_from_front_def cut_from_back_def)
  have pyd: "cut_from_front P (PydubCutter a) d =
      (if d \<le> 0 \<or> seg_len P a \<le> d then Inl ValueError
       else Inr (Segment (seg_slice P a (Some d) None), PydubCutter a))"
    "cut_from_back P (PydubCutter a) d =
      (if d \<le> 0 \<or> seg_len P a \<le> d then Inl ValueError
       else Inr (Segment (seg_slice P a None (Some (- d))), PydubCutter a))"
    by (simp_all add: cut_from_front_def cut_from_back_def)
  show ?thesis
  proof (cases "d \<le> 0 \<or> duration_ms c \<le> d")
    case True
    then show ?thesis using fail pyd by simp
  next
    case False
    then have "0 < d" "d < duration_ms c" by simp_all
    then show ?thesis using front bck pyd False by simp
  qed
qed

theorem C3_cut_front_back_witness:
  "loaded_wave example_wave example_cutter
   \<and> cut_from_front example_pydub (WaveCutter example_cutter) 500 =
       Inr (Frames ''cdefgh'', WaveCutter (example_cutter\<lparr>wave_file := example_wave\<lparr>soundpos := 4\<rparr>\<rparr>))
   \<and> cut_from_back example_pydub (WaveCutter example_cutter) 500 =
       Inr (Frames ''abcdef'', WaveCutter (example_cutter\<lparr>wave_file := example_wave\<lparr>soundpos := 3\<rparr>\<rparr>))
   \<and> cut_from_front example_pydub (WaveCutter example_cutter) 2000 = Inl ValueError
   \<and> cut_from_back example_pydub (WaveCutter example_cutter) 0 = Inl ValueError"
proof -
  have c: "duration_ms example_cutter = 2000" "sample_rate example_cutter = 2"
    "total_frames example_cutter = 4" by (simp_all add: example_cutter_def)
  show ?thesis
    using C3_cut_front_back[OF example_loaded, of example_pydub 500 "()"]
      C3_cut_front_back[OF example_loaded, of example_pydub 2000 "()"]
      C3_cut_front_back[OF example_loaded, of example_pydub 0 "()"]
    by (simp add: c example_frames example_ranges example_loaded)
qed

text \<open>
  Claim C4.  On a loaded source, removing or extracting the range from \<open>s\<close> to \<open>e\<close> raises
  \<open>ValueError\<close> exactly when \<open>s < 0\<close>, \<open>e < 0\<close>, \<open>s \<ge> e\<close> or \<open>e\<close> is beyond the source
  duration.  Otherwise \<open>cut_from_middle\<close> returns the frames before the frame of \<open>s\<close>
  followed by the frames from the frame of \<open>e\<close> to the end, and \<open>extract_segment\<close> returns
  the frames from the frame of \<open>s\<close> up to the frame of \<open>e\<close>; on the other backend they are
  \<open>audio[:s] + audio[e:]\<close> and \<open>audio[s:e]\<close>.
\<close>

theorem C4_cut_middle_extract:
  assumes "loaded_wave w c"
  shows "cut_from_middle P (WaveCutter c) s e =
      (if s < 0 \<or> e < 0 \<or> e \<le> s \<or> duration_ms c < e then Inl ValueError
       else Inr (Frames (frame_range w 0 (frame_of s (sample_rate c))
                          @ frame_range w (frame_of e (sample_rate c)) (total_frames c)),
                 WaveCutter (c\<lparr>wave_file := w\<lparr>soundpos := total_frames c\<rparr>\<rparr>)))
    \<and> extract_segment P (WaveCutter c) s e =
      (if s < 0 \<or> e < 0 \<or> e \<le> s \<or> duration_ms c < e then Inl ValueError
       else Inr (Frames (frame_range w (frame_of s (sample_rate c)) (frame_of e (sample_rate c))),
                 WaveCutter (c\<lparr>wave_file := w\<lparr>soundpos := frame_of e (sample_rate c)\<rparr>\<rparr>)))
    \<and> cut_from_middle P (PydubCutter a) s e =
      (if s < 0 \<or> e < 0 \<or> e \<le> s \<or> seg_len P a < e then Inl ValueError
       else Inr (Segment (seg_add P (seg_slice P a None (Some s)) (seg_slice P a (Some e) None)),
                 PydubCutter a))
    \<and> extract_segment P (PydubCutter a) s e =
      (if s < 0 \<or> e < 0 \<or> e \<le> s \<or> seg_len P a < e then Inl ValueError
       else Inr (Segment (seg_slice P a (Some s) (Some e)), PydubCutter a))"
proof -
  have pyd: "cut_from_middle P (PydubCutter a) s e =
      (if s < 0 \<or> e < 0 \<or> e \<le> s \<or> seg_len P a < e then Inl ValueError
       else Inr (Segment (seg_add P (seg_slice P a None (Some s)) (seg_slice P a (Some e) None)),
                 PydubCutter a))"
    "extract_segment P (PydubCutter a) s e =
      (if s < 0 \<or> e < 0 \<or> e \<le> s \<or> seg_len P a < e then Inl ValueError
       else Inr (Segment (seg_slice P a (Some s) (Some e)), PydubCutter a))"
    by (auto simp: cut_from_middle_def extract_segment_def Let_def)
  show ?thesis
  proof (cases "s < 0 \<or> e < 0 \<or> e \<le> s \<or> duration_ms c < e")
    case True
    then have "cut_from_middle P (WaveCutter c) s e = Inl ValueError"
      "extract_segment P (WaveCutter c) s e = Inl ValueError"
      by (auto simp: cut_from_middle_def extract_segment_def)
    then show ?thesis using True pyd by simp
  next
    case False
    then have g: "0 \<le> s" "s \<le> e" "e \<le> duration_ms c" by simp_all
    have "cut_from_middle P (WaveCutter c) s e =
        Inr (Frames (frame_range w 0 (frame_of s (sample_rate c))
                      @ frame_range w (frame_of e (sample_rate c)) (total_frames c)),
             WaveCutter (c\<lparr>wave_file := w\<lparr>soundpos := total_frames c\<rparr>\<rparr>))"
      using False wav_cut_from_middle_eq[OF assms g]
      by (simp add: cut_from_middle_def lift_wave_def ebind_def)
    moreover have "extract_segment P (WaveCutter c) s e =
        Inr (Frames (frame_range w (frame_of s (sample_rate c)) (frame_of e (sample_rate c))),
             WaveCutter (c\<lparr>wave_file := w\<lparr>soundpos := frame_of e (sample_rate c)\<rparr>\<rparr>))"
      using False wav_extract_segment_eq[OF assms g]
      by (simp add: extract_segment_def lift_wave_def ebind_def)
    ultimately show ?thesis using False pyd by simp
  qed
qed

theorem C4_cut_middle_extract_witness:
  "loaded_wave example_wave example_cutter
   \<and> cut_from_middle example_pydub (WaveCutter example_cutter) 500 1500 =
       Inr (Frames ''abgh'', WaveCutter (example_cutter\<lparr>wave_file := example_wave\<lparr>soundpos := 4\<rparr>\<rparr>))
   \<and> extract_segment example_pydub (WaveCutter example_cutter) 500 1500 =
       Inr (Frames ''cdef'', WaveCutter (example_cutter\<lparr>wave_file := example_wave\<lparr>soundpos := 3\<rparr>\<rparr>))
   \<and> cut_from_middle example_pydub (WaveCutter example_cutter) 1500 1500 = Inl ValueError
   \<and> extract_segment example_pydub (WaveCutter example_cutter) 500 2001 = Inl ValueError"
proof -
  have c: "duration_ms example_cutter = 2000" "sample_rate example_cutter = 2"
    "total_frames example_cutter = 4" by (simp_all add: example_cutter_def)
  show ?thesis
    using C4_cut_middle_extract[OF example_loaded, of example_pydub 500 1500 "()"]
      C4_cut_middle_extract[OF example_loaded, of example_pydub 1500 1500 "()"]
      C4_cut_middle_extract[OF example_loaded, of example_pydub 500 2001 "()"]
    by (simp add: c example_frames example_ranges example_loaded)
qed

text \<open>
  Claim C5.  On a loaded raw-PCM source and for \<open>0 \<le> s < e \<le> duration\<close>, both operations
  succeed, and the number of frames extracted plus the number of frames that
  \<open>cut_from_middle\<close> keeps is the total number of frames of the source: the sum is exact,
  hence within the tolerance of one frame.
\<close>

theorem C5_extract_plus_cut_middle:
  assumes "loaded_wave w c" and "0 \<le> s" and "s < e" and "e \<le> duration_ms c"
  shows "\<exists>x m c1 c2.
      extract_segment P (WaveCutter c) s e = Inr (Frames x, c1)
    \<and> cut_from_middle P (WaveCutter c) s e = Inr (Frames m, c2)
    \<and> int (length x) div framesize w + int (length m) div framesize w = total_frames c"
proof -
  note f = loaded_wave_fields[OF assms(1)] and i = loaded_wave_inv[OF assms(1)]
  have g: "0 \<le> s" "s \<le> e" "e \<le> duration_ms c" using assms by simp_all
  have s: "0 \<le> s" "s \<le> duration_ms c" and e: "0 \<le> e" "e \<le> duration_ms c"
    using assms by simp_all
  define sf where "sf = frame_of s (sample_rate c)"
  define ef where "ef = frame_of e (sample_rate c)"
  have sf: "0 \<le> sf" "sf \<le> ef" "ef \<le> nframes w"
    using loaded_frame[OF assms(1) s] loaded_frame[OF assms(1) e] loaded_frame_mono[OF assms(1) g(2)]
    by (simp_all add: sf_def ef_def f)
  have fs: "1 \<le> framesize w" and T0: "0 \<le> nframes w" using i(1) by (simp_all add: wave_inv_def)
  have lx: "int (length (frame_range w sf ef)) = (ef - sf) * framesize w"
    using sf by (intro length_frame_range[OF i(1)]) simp_all
  have l1: "int (length (frame_range w 0 sf)) = sf * framesize w"
    using length_frame_range[OF i(1), of 0 sf] sf by simp
  have l2: "int (length (frame_range w ef (nframes w))) = (nframes w - ef) * framesize w"
    using sf by (intro length_frame_range[OF i(1)]) simp_all
  have lm: "int (length (frame_range w 0 sf @ frame_range w ef (nframes w)))
      = (sf + (nframes w - ef)) * framesize w"
    by (simp add: l1 l2 algebra_simps)
  have ex: "extract_segment P (WaveCutter c) s e =
      Inr (Frames (frame_range w sf ef), WaveCutter (c\<lparr>wave_file := w\<lparr>soundpos := ef\<rparr>\<rparr>))"
    using assms(2-4) wav_extract_segment_eq[OF assms(1) g]
    by (simp add: extract_segment_def lift_wave_def ebind_def sf_def ef_def)
  have mid: "cut_from_middle P (WaveCutter c) s e =
      Inr (Frames (frame_range w 0 sf @ frame_range w ef (nframes w)),
           WaveCutter (c\<lparr>wave_file := w\<lparr>soundpos := nframes w\<rparr>\<rparr>))"
    using assms(2-4) wav_cut_from_middle_eq[OF assms(1) g]
    by (simp add: cut_from_middle_def lift_wave_def ebind_def sf_def ef_def f)
  have "int (length (frame_range w sf ef)) div framesize w
      + int (length (frame_range w 0 sf @ frame_range w ef (nframes w))) div framesize w
      = total_frames c"
    using fs by (simp only: lx lm) (simp add: f)
  then show ?thesis using ex mid by blast
qed

theorem C5_extract_plus_cut_middle_witness:
  "loaded_wave example_wave example_cutter \<and> (0::int) \<le> 500 \<and> (500::int) < 1500
   \<and> 1500 \<le> duration_ms example_cutter
   \<and> (\<exists>x m c1 c2.
      extract_segment example_pydub (WaveCutter example_cutter) 500 1500 = Inr (Frames x, c1)
    \<and> cut_from_middle example_pydub (WaveCutter example_cutter) 500 1500 = Inr (Frames m, c2)
    \<and> int (length x) div framesize example_wave + int (length m) div framesize example_wave
        = total_frames example_cutter)"
proof -
  have d: "1500 \<le> duration_ms example_cutter" by (simp add: example_cutter_def)
  show ?thesis
    using C5_extract_plus_cut_middle[OF example_loaded _ _ d, of 500 example_pydub] d example_loaded
    by simp
qed

text \<open>
  Claim C9.  On a loaded raw-PCM source and for \<open>0 \<le> s < e \<le> duration\<close>, with \<open>sf\<close> and
  \<open>ef\<close> the frames computed for \<open>s\<close> and \<open>e\<close>: the extracted buffer is the
  \<open>(ef - sf) \<times> channels \<times> sample_width\<close> bytes that start at byte
  \<open>sf \<times> channels \<times> sample_width\<close> of the data, it has exactly that length, and the result
  of \<open>cut_from_middle\<close> is the bytes before frame \<open>sf\<close> followed directly by the bytes from
  frame \<open>ef\<close> to the last frame.
\<close>

theorem C9_byte_ranges:
  assumes "loaded_wave w c" and "0 \<le> s" and "s < e" and "e \<le> duration_ms c"
  shows "\<exists>sf ef x c1 c2.
      ms_to_frame s (sample_rate c) = Inr sf \<and> ms_to_frame e (sample_rate c) = Inr ef
    \<and> extract_segment P (WaveCutter c) s e = Inr (Frames x, c1)
    \<and> x = take (nat ((ef - sf) * channels c * sample_width c))
             (drop (nat (sf * channels c * sample_width c)) (frames w))
    \<and> int (length x) = (ef - sf) * channels c * sample_width c
    \<and> cut_from_middle P (WaveCutter c) s e =
        Inr (Frames (take (nat (sf * channels c * sample_width c)) (frames w)
                     @ take (nat ((total_frames c - ef) * channels c * sample_width c))
                         (drop (nat (ef * channels c * sample_width c)) (frames w))), c2)"
proof -
  note f = loaded_wave_fields[OF assms(1)] and i = loaded_wave_inv[OF assms(1)]
  have g: "0 \<le> s" "s \<le> e" "e \<le> duration_ms c" using assms by simp_all
  have s: "0 \<le> s" "s \<le> duration_ms c" and e: "0 \<le> e" "e \<le> duration_ms c"
    using assms by simp_all
  define sf where "sf = frame_of s (sample_rate c)"
  define ef where "ef = frame_of e (sample_rate c)"
  have sf: "0 \<le> sf" "sf \<le> ef" "ef \<le> nframes w"
    using loaded_frame[OF assms(1) s] loaded_frame[OF assms(1) e] loaded_frame_mono[OF assms(1) g(2)]
    by (simp_all add: sf_def ef_def f)
  have ms: "ms_to_frame s (sample_rate c) = Inr sf" "ms_to_frame e (sample_rate c) = Inr ef"
    using loaded_frame(1)[OF assms(1) s] loaded_frame(1)[OF assms(1) e] by (simp_all add: sf_def ef_def)
  have fsz: "framesize w = channels c * sample_width c" by (simp add: framesize_def f)
  have r: "frame_range w a b = take (nat ((b - a) * channels c * sample_width c))
             (drop (nat (a * channels c * sample_width c)) (frames w))" for a b
    by (simp add: frame_range_def fsz mult.assoc)
  have lx: "int (length (frame_range w sf ef)) = (ef - sf) * channels c * sample_width c"
    using sf length_frame_range[OF i(1), of sf ef] by (simp add: fsz mult.assoc)
  have ex: "extract_segment P (WaveCutter c) s e =
      Inr (Frames (frame_range w sf ef), WaveCutter (c\<lparr>wave_file := w\<lparr>soundpos := ef\<rparr>\<rparr>))"
    using assms(2-4) wav_extract_segment_eq[OF assms(1) g]
    by (simp add: extract_segment_def lift_wave_def ebind_def sf_def ef_def)
  have mid: "cut_from_middle P (WaveCutter c) s e =
      Inr (Frames (frame_range w 0 sf @ frame_range w ef (total_frames c)),
           WaveCutter (c\<lparr>wave_file := w\<lparr>soundpos := total_frames c\<rparr>\<rparr>))"
    using assms(2-4) wav_cut_from_middle_eq[OF assms(1) g]
    by (simp add: cut_from_middle_def lift_wave_def ebind_def sf_def ef_def)
  have r0: "frame_range w 0 sf = take (nat (sf * channels c * sample_width c)) (frames w)"
    by (simp add: r)
  show ?thesis
    apply (rule exI[of _ sf], rule exI[of _ ef], rule exI[of _ "frame_range w sf ef"])
    apply (intro exI conjI)
         apply (rule ms(1))
        apply (rule ms(2))
       apply (rule ex)
      apply (rule r)
     apply (rule lx)
    apply (simp only: mid r0 r[of ef])
    done
qed

theorem C9_byte_ranges_witness:
  "loaded_wave example_wave example_cutter \<and> (0::int) \<le> 500 \<and> (500::int) < 1500
   \<and> 1500 \<le> duration_ms example_cutter
   \<and> (\<exists>sf ef x c1 c2.
      ms_to_frame 500 (sample_rate example_cutter) = Inr sf
    \<and> ms_to_frame 1500 (sample_rate example_cutter) = Inr ef
    \<and> extract_segment example_pydub (WaveCutter example_cutter) 500 1500 = Inr (Frames x, c1)
    \<and> x = take (nat ((ef - sf) * channels example_cutter * sample_width example_cutter))
             (drop (nat (sf * channels example_cutter * sample_width example_cutter))
                (frames example_wave))
    \<and> int (length x) = (ef - sf) * channels example_cutter * sample_width example_cutter
    \<and> cut_from_middle example_pydub (WaveCutter example_cutter) 500 1500 =
        Inr (Frames (take (nat (sf * channels example_cutter * sample_width example_cutter))
                       (frames example_wave)
                     @ take (nat ((total_frames example_cutter - ef) * channels example_cutter
                                   * sample_width example_cutter))
                         (drop (nat (ef * channels example_cutter * sample_width example_cutter))
                            (frames example_wave))), c2))"
proof -
  have d: "1500 \<le> duration_ms example_cutter" by (simp add: example_cutter_def)
  show ?thesis
    using C9_byte_ranges[OF example_loaded _ _ d, of 500 example_pydub] d example_loaded
    by simp
qed

text \<open>
  Claim C10.  On a loaded raw-PCM source, under the guards of the operations (a duration
  strictly between 0 and the source duration; \<open>0 \<le> s < e \<le> duration\<close>), every frame
  index is computed without an error and lies between 0 and the total number of frames,
  the start frame is not after the end frame, and every seek to such a frame succeeds.
  Every frame count that is read (\<open>total - f\<close>, \<open>sf\<close>, \<open>ef - sf\<close>, \<open>total - ef\<close>) is
  therefore non-negative.
\<close>

theorem C10_frame_indices_in_range:
  assumes "loaded_wave w c"
  shows "(0 < d \<and> d < duration_ms c \<longrightarrow>
        (\<exists>f. ms_to_frame d (sample_rate c) = Inr f \<and> 0 \<le> f \<and> f \<le> total_frames c
             \<and> setpos (wave_file c) f = Inr ((wave_file c)\<lparr>soundpos := f\<rparr>)))
    \<and> (0 \<le> s \<and> s < e \<and> e \<le> duration_ms c \<longrightarrow>
        (\<exists>sf ef. ms_to_frame s (sample_rate c) = Inr sf \<and> ms_to_frame e (sample_rate c) = Inr ef
             \<and> 0 \<le> sf \<and> sf \<le> ef \<and> ef \<le> total_frames c
             \<and> setpos (wave_file c) sf = Inr ((wave_file c)\<lparr>soundpos := sf\<rparr>)
             \<and> setpos (wave_file c) ef = Inr ((wave_file c)\<lparr>soundpos := ef\<rparr>)))"
proof (intro conjI impI)
  note f = loaded_wave_fields[OF assms(1)]
  { assume a: "0 < d \<and> d < duration_ms c"
    then have d: "0 \<le> d" "d \<le> duration_ms c" by simp_all
    note fr = loaded_frame[OF assms d]
    have "setpos (wave_file c) (frame_of d (sample_rate c))
        = Inr ((wave_file c)\<lparr>soundpos := frame_of d (sample_rate c)\<rparr>)"
      using fr by (intro setpos_ok) (simp_all add: f)
    then show "\<exists>f. ms_to_frame d (sample_rate c) = Inr f \<and> 0 \<le> f \<and> f \<le> total_frames c
             \<and> setpos (wave_file c) f = Inr ((wave_file c)\<lparr>soundpos := f\<rparr>)"
      using fr by blast }
  { assume a: "0 \<le> s \<and> s < e \<and> e \<le> duration_ms c"
    then have s: "0 \<le> s" "s \<le> duration_ms c" and e: "0 \<le> e" "e \<le> duration_ms c"
      and se: "s \<le> e" by simp_all
    note frs = loaded_frame[OF assms s] and fre = loaded_frame[OF assms e]
      and m = loaded_frame_mono[OF assms se]
    have 1: "setpos (wave_file c) (frame_of s (sample_rate c))
        = Inr ((wave_file c)\<lparr>soundpos := frame_of s (sample_rate c)\<rparr>)"
      using frs m fre by (intro setpos_ok) (simp_all add: f)
    have 2: "setpos (wave_file c) (frame_of e (sample_rate c))
        = Inr ((wave_file c)\<lparr>soundpos := frame_of e (sample_rate c)\<rparr>)"
      using fre by (intro setpos_ok) (simp_all add: f)
    show "\<exists>sf ef. ms_to_frame s (sample_rate c) = Inr sf \<and> ms_to_frame e (sample_rate c) = Inr ef
             \<and> 0 \<le> sf \<and> sf \<le> ef \<and> ef \<le> total_frames c
             \<and> setpos (wave_file c) sf = Inr ((wave_file c)\<lparr>soundpos := sf\<rparr>)
             \<and> setpos (wave_file c) ef = Inr ((wave_file c)\<lparr>soundpos := ef\<rparr>)"
      using frs fre m 1 2 by blast }
qed

theorem C10_frame_indices_in_range_witness:
  "loaded_wave example_wave example_cutter
   \<and> (0::int) < 500 \<and> 500 < duration_ms example_cutter
   \<and> (\<exists>f. ms_to_frame 500 (sample_rate example_cutter) = Inr f \<and> 0 \<le> f
          \<and> f \<le> total_frames example_cutter
          \<and> setpos (wave_file example_cutter) f = Inr ((wave_file example_cutter)\<lparr>soundpos := f\<rparr>))
   \<and> (0::int) \<le> 500 \<and> (500::int) < 1500 \<and> 1500 \<le> duration_ms example_cutter
   \<and> (\<exists>sf ef. ms_to_frame 500 (sample_rate example_cutter) = Inr sf
          \<and> ms_to_frame 1500 (sample_rate example_cutter) = Inr ef
          \<and> 0 \<le> sf \<and> sf \<le> ef \<and> ef \<le> total_frames example_cutter
          \<and> setpos (wave_file example_cutter) sf = Inr ((wave_file example_cutter)\<lparr>soundpos := sf\<rparr>)
          \<and> setpos (wave_file example_cutter) ef = Inr ((wave_file example_cutter)\<lparr>soundpos := ef\<rparr>))"
proof -
  have d: "duration_ms example_cutter = 2000" by (simp add: example_cutter_def)
  show ?thesis
    using C10_frame_indices_in_range[OF example_loaded, of 500 500 1500] example_loaded
    by (simp add: d)
qed

text \<open>
  Claim C6.  Every raw-PCM helper converts a millisecond boundary with \<open>ms_to_frame\<close>,
  that is \<open>int((ms / 1000) * sample_rate)\<close> in double precision.  Read in exact arithmetic
  the claimed formula \<open>floor(ms / 1000 \<times> sampleRate)\<close> is not what the code computes:
  9 ms at 48000 Hz are 432 frames exactly, and the code computes 431, because the
  quotient \<open>9 / 1000\<close> is rounded down before it is multiplied.
\<close>

theorem C6_counterexample: "ms_to_frame 9 48000 \<noteq> Inr (spec_frame 9 48000)"
proof -
  have "ms_to_frame 9 48000 = Inr (frame_of 9 48000)" by (rule ms_to_frame_eq) simp_all
  then show ?thesis by (simp add: frame_of_9_48000 spec_frame_div)
qed

text \<open>
  Claim C6, amended.  For a non-negative \<open>ms\<close> and a positive rate below \<open>2\<^sup>3\<^sup>2\<close> with at most
  \<open>2\<^sup>4\<^sup>0\<close> frames, the conversion succeeds, its result is the floor of the doubly rounded
  product, and that is the exact \<open>floor(ms \<times> rate / 1000)\<close> or one less.
\<close>

theorem C6_frame_conversion:
  assumes "0 \<le> ms" and "0 < rate" and "rate < 2 ^ 32" and "ms * rate \<le> 1000 * 2 ^ 40"
  shows "\<exists>f. ms_to_frame ms rate = Inr f
    \<and> f = \<lfloor>fl_round (fl_round (of_int ms / 1000) * of_int rate)\<rfloor>
    \<and> spec_frame ms rate - 1 \<le> f \<and> f \<le> spec_frame ms rate"
proof -
  define y where "y = fl_round (fl_round (of_int ms / 1000) * of_int rate)"
  have R: "1 \<le> rate" using assms(2) by simp
  have y0: "0 \<le> y"
  proof -
    have "0 \<le> frame_of ms rate" using assms by (intro frame_of_nonneg) simp_all
    moreover have "(0 :: rat) \<le> of_int ms / 1000" using assms(1) by simp
    then have "0 \<le> fl_round (of_int ms / 1000)" by (rule fl_round_nonneg)
    then have "0 \<le> fl_round (of_int ms / 1000) * of_int rate" using assms(2) by simp
    then show ?thesis unfolding y_def by (rule fl_round_nonneg)
  qed
  have fo: "frame_of ms rate = \<lfloor>y\<rfloor>" using y0 by (simp add: frame_of_def y_def float_trunc_def)
  have "ms * 1 \<le> ms * rate" using assms(1) R by (intro mult_left_mono) simp_all
  then have bounds: "ms \<le> 2 ^ 64" "rate < 2 ^ 53" using assms(3,4) by simp_all
  have eq: "ms_to_frame ms rate = Inr \<lfloor>y\<rfloor>"
    using ms_to_frame_eq[of ms rate] assms bounds by (simp add: fo)
  define N where "N = ms * rate"
  have sp: "spec_frame ms rate = N div 1000" by (simp add: spec_frame_div N_def)
  have near: "\<bar>y - of_int N / 1000\<bar> < 1 / 1000"
  proof (cases "ms = 0")
    case True
    then show ?thesis by (simp add: y_def N_def fl_round_0)
  next
    case False
    then have "1 \<le> ms" using assms(1) by simp
    then show ?thesis unfolding y_def N_def using R assms(4) by (rule frame_of_near_exact)
  qed
  have n1: "y - of_int N / 1000 < 1 / 1000" and n2: "- (1 / 1000) < y - of_int N / 1000"
    using near unfolding abs_less_iff by linarith+
  define q where "q = N div 1000"
  define m where "m = N mod 1000"
  have Nm: "0 \<le> m" "m < 1000" by (simp_all add: m_def)
  have Nd: "N = 1000 * q + m" by (simp add: q_def m_def)
  have hi: "y < of_int (q + 1)"
  proof -
    have "N + 1 \<le> 1000 * q + 1000" using Nm Nd by linarith
    then have "N + 1 \<le> 1000 * (q + 1)" by (simp add: algebra_simps)
    then have "(of_int (N + 1) :: rat) \<le> of_int (1000 * (q + 1))" by (simp only: of_int_le_iff)
    then have "(of_int N + 1) / 1000 \<le> (of_int (q + 1) :: rat)" by simp
    moreover have "(of_int N + 1) / 1000 = (of_int N :: rat) / 1000 + 1 / 1000"
      by (rule add_divide_distrib)
    ultimately show ?thesis using n1 by linarith
  qed
  have lo: "of_int (q - 1) < y"
  proof -
    have "1000 * q \<le> N" using Nm Nd by linarith
    then have "(of_int (1000 * q) :: rat) \<le> of_int N" by (simp only: of_int_le_iff)
    then have "(of_int q :: rat) \<le> of_int N / 1000" by simp
    moreover have "(of_int (q - 1) :: rat) = of_int q - 1" by simp
    ultimately show ?thesis using n2 by linarith
  qed
  have "\<lfloor>y\<rfloor> < q + 1" using hi by (simp only: floor_less_iff)
  moreover have "q - 1 \<le> \<lfloor>y\<rfloor>" using lo by (simp only: le_floor_iff less_imp_le)
  ultimately show ?thesis using eq by (simp add: sp y_def q_def)
qed

theorem C6_frame_conversion_witness:
  "(0::int) \<le> 9 \<and> (0::int) < 48000 \<and> (48000::int) < 2 ^ 32 \<and> (9::int) * 48000 \<le> 1000 * 2 ^ 40
   \<and> (\<exists>f. ms_to_frame 9 48000 = Inr f
        \<and> f = \<lfloor>fl_round (fl_round (of_int 9 / 1000) * of_int 48000)\<rfloor>
        \<and> spec_frame 9 48000 - 1 \<le> f \<and> f \<le> spec_frame 9 48000)"
  using C6_frame_conversion[of 9 48000] by simp

section \<open>Saving on the raw-PCM backend\<close>

text \<open>
  Claim C7.  On the raw-PCM backend the requested format plays no part in \<open>save_audio\<close>.
  Whenever the save succeeds, the file written is a linear-PCM (WAV) container with the
  source's channel count, sample width and frame rate and the buffer as its frames, at a
  path that ends with \<open>.wav\<close>: the output path itself if it already ends with \<open>.wav\<close> in
  any case, and otherwise the output path with its extension replaced by (or, without an
  extension, extended by) \<open>.wav\<close>.  The save succeeds whenever the buffer is a byte string,
  the output path has a file name, the file can be created and the writer accepts the
  source's parameters.
\<close>

theorem C7_wave_save_is_wav:
  "save_audio P can_create (WaveCutter c) d out fmt = save_audio P can_create (WaveCutter c) d out None
   \<and> (\<forall>out' wr. save_audio P can_create (WaveCutter c) d out fmt = Inr (out', wr) \<longrightarrow>
         endswith (map lower (path_str out')) ''.wav''
       \<and> (\<exists>b. d = Frames b
              \<and> wr = Wav_container (path_str out') (channels c) (sample_width c) (sample_rate c) b)
       \<and> (if endswith (map lower (path_str out)) ''.wav'' then out' = out
           else anchor out' = anchor out
              \<and> parts out' = butlast (parts out)
                   @ [drop_last (length (suffix out)) (name out) @ ''.wav'']))
   \<and> (\<forall>b. d = Frames b \<and> name out \<noteq> [] \<and> (\<forall>p. can_create p) \<and> 1 \<le> channels c
         \<and> 1 \<le> sample_width c \<and> sample_width c \<le> 4 \<and> 0 < sample_rate c \<longrightarrow>
         (\<exists>out'. save_audio P can_create (WaveCutter c) d out fmt
            = Inr (out', Wav_container (path_str out') (channels c) (sample_width c)
                           (sample_rate c) b)))"
proof (intro conjI allI impI)
  show "save_audio P can_create (WaveCutter c) d out fmt
      = save_audio P can_create (WaveCutter c) d out None"
    by (simp add: save_audio_def)
next
  fix out' wr
  assume s: "save_audio P can_create (WaveCutter c) d out fmt = Inr (out', wr)"
  have "\<exists>o2. (if \<not> endswith (map lower (path_str out)) ''.wav''
                 then with_suffix out ''.wav'' else Inr out) = Inr o2
      \<and> save_audio P can_create (WaveCutter c) d out fmt =
          (if \<not> can_create (path_str o2) then Inl ValueError
           else if channels c < 1 then Inl ValueError
           else if sample_width c < 1 \<or> 4 < sample_width c then Inl ValueError
           else if sample_rate c \<le> 0 then Inl ValueError
           else case d of
                  Frames b \<Rightarrow>
                    Inr (o2, Wav_container (path_str o2) (channels c) (sample_width c)
                                (sample_rate c) b)
                | Segment s \<Rightarrow> Inl ValueError)"
  proof (cases "endswith (map lower (path_str out)) ''.wav''")
    case True
    then show ?thesis by (simp add: save_audio_def ebind_def)
  next
    case False
    show ?thesis
    proof (cases "with_suffix out ''.wav''")
      case (Inl e)
      then have "save_audio P can_create (WaveCutter c) d out fmt = Inl e"
        using False by (simp add: save_audio_def ebind_def)
      then show ?thesis using s by simp
    next
      case (Inr o2)
      then show ?thesis using False by (simp add: save_audio_def ebind_def)
    qed
  qed
  then obtain o2 where o2: "(if \<not> endswith (map lower (path_str out)) ''.wav''
                 then with_suffix out ''.wav'' else Inr out) = Inr o2"
    and sv: "save_audio P can_create (WaveCutter c) d out fmt =
          (if \<not> can_create (path_str o2) then Inl ValueError
           else if channels c < 1 then Inl ValueError
           else if sample_width c < 1 \<or> 4 < sample_width c then Inl ValueError
           else if sample_rate c \<le> 0 then Inl ValueError
           else case d of
                  Frames b \<Rightarrow>
                    Inr (o2, Wav_container (path_str o2) (channels c) (sample_width c)
                                (sample_rate c) b)
                | Segment s \<Rightarrow> Inl ValueError)"
    by blast
  from s sv obtain b where b: "d = Frames b" and r: "out' = o2"
      "wr = Wav_container (path_str o2) (channels c) (sample_width c) (sample_rate c) b"
    by (cases d) (simp_all split: if_splits)
  show "endswith (map lower (path_str out')) ''.wav''"
  proof (cases "endswith (map lower (path_str out)) ''.wav''")
    case True
    then show ?thesis using o2 r by simp
  next
    case False
    then have "with_suffix out ''.wav'' = Inr o2" using o2 by simp
    then show ?thesis unfolding r by (rule with_suffix_wav(3))
  qed
  show "\<exists>b. d = Frames b
      \<and> wr = Wav_container (path_str out') (channels c) (sample_width c) (sample_rate c) b"
    using b r by simp
  show "if endswith (map lower (path_str out)) ''.wav'' then out' = out
        else anchor out' = anchor out
           \<and> parts out' = butlast (parts out)
                @ [drop_last (length (suffix out)) (name out) @ ''.wav'']"
  proof (cases "endswith (map lower (path_str out)) ''.wav''")
    case True
    then show ?thesis using o2 r by simp
  next
    case False
    then have w: "with_suffix out ''.wav'' = Inr o2" using o2 by simp
    show ?thesis using False with_suffix_wav(1,2)[OF w] by (simp add: r)
  qed
next
  fix b
  assume a: "d = Frames b \<and> name out \<noteq> [] \<and> (\<forall>p. can_create p) \<and> 1 \<le> channels c
         \<and> 1 \<le> sample_width c \<and> sample_width c \<le> 4 \<and> 0 < sample_rate c"
  then have "\<exists>o2. (if \<not> endswith (map lower (path_str out)) ''.wav''
                 then with_suffix out ''.wav'' else Inr out) = Inr o2"
    by (simp add: with_suffix_def Let_def)
  then obtain o2 where "(if \<not> endswith (map lower (path_str out)) ''.wav''
                 then with_suffix out ''.wav'' else Inr out) = Inr o2" ..
  then have "save_audio P can_create (WaveCutter c) d out fmt
            = Inr (o2, Wav_container (path_str o2) (channels c) (sample_width c)
                           (sample_rate c) b)"
    using a by (simp add: save_audio_def ebind_def)
  then show "\<exists>out'. save_audio P can_create (WaveCutter c) d out fmt
            = Inr (out', Wav_container (path_str out') (channels c) (sample_width c)
                           (sample_rate c) b)" ..
qed

theorem C7_wave_save_is_wav_witness:
  "save_audio example_pydub (\<lambda>p. True) (WaveCutter example_cutter) (Frames ''cdef'')
      \<lparr>anchor = [], parts = [''music'', ''out.mp3'']\<rparr> (Some ''mp3'')
    = Inr (\<lparr>anchor = [], parts = [''music'', ''out.wav'']\<rparr>,
           Wav_container ''music/out.wav'' 2 1 2 ''cdef'')
   \<and> endswith (map lower ''music/out.wav'') ''.wav''"
proof -
  note t = C7_wave_save_is_wav[of example_pydub "\<lambda>p. True" example_cutter "Frames ''cdef''"
      "\<lparr>anchor = [], parts = [''music'', ''out.mp3'']\<rparr>" "Some ''mp3''"]
  have "endswith (map lower (path_str \<lparr>anchor = [], parts = [''music'', ''out.wav'']\<rparr>)) ''.wav''"
    by (rule t[THEN conjunct2, THEN conjunct1, rule_format, OF example_save, THEN conjunct1])
  then have "endswith (map lower ''music/out.wav'') ''.wav''"
    by (simp only: example_out_path)
  then show ?thesis using example_save by (rule conjI[rotated])
qed

end
